theory Spec2Isabelle
  imports Complex_Main
begin

section \<open>Numbers\<close>

text \<open>
  The arrays of \<^verbatim>\<open>ConsLaborModel.py\<close> are numpy arrays of floats. An entry is modelled as an
  exact real or one of the three special values numpy produces instead of raising: a division
  by zero gives an infinity, an undefined operation gives NaN. Rounding, overflow and the sign
  of zero are not modelled (a zero divisor counts as \<open>+0.0\<close>).
\<close>

datatype npf = Fin real | PInf | NInf | NaN

definition inf_of_sign :: "real \<Rightarrow> npf" where
  "inf_of_sign s = (if s = 0 then NaN else if 0 < s then PInf else NInf)"

instantiation npf :: "{zero, one, plus, uminus, minus, times, inverse, ord}"
begin

definition zero_npf :: npf where
  "zero_npf = Fin 0"

definition one_npf :: npf where
  "one_npf = Fin 1"

fun plus_npf :: "npf \<Rightarrow> npf \<Rightarrow> npf" where
  "plus_npf NaN y = NaN"
| "plus_npf x NaN = NaN"
| "plus_npf (Fin a) (Fin b) = Fin (a + b)"
| "plus_npf PInf NInf = NaN"
| "plus_npf NInf PInf = NaN"
| "plus_npf PInf y = PInf"
| "plus_npf x PInf = PInf"
| "plus_npf NInf y = NInf"
| "plus_npf x NInf = NInf"

fun uminus_npf :: "npf \<Rightarrow> npf" where
  "uminus_npf (Fin a) = Fin (- a)"
| "uminus_npf PInf = NInf"
| "uminus_npf NInf = PInf"
| "uminus_npf NaN = NaN"

definition minus_npf :: "npf \<Rightarrow> npf \<Rightarrow> npf" where
  "minus_npf x y = x + (- y)"

fun times_npf :: "npf \<Rightarrow> npf \<Rightarrow> npf" where
  "times_npf NaN y = NaN"
| "times_npf x NaN = NaN"
| "times_npf (Fin a) (Fin b) = Fin (a * b)"
| "times_npf (Fin a) PInf = inf_of_sign a"
| "times_npf (Fin a) NInf = inf_of_sign (- a)"
| "times_npf PInf (Fin b) = inf_of_sign b"
| "times_npf NInf (Fin b) = inf_of_sign (- b)"
| "times_npf PInf PInf = PInf"
| "times_npf PInf NInf = NInf"
| "times_npf NInf PInf = NInf"
| "times_npf NInf NInf = PInf"

fun divide_npf :: "npf \<Rightarrow> npf \<Rightarrow> npf" where
  "divide_npf NaN y = NaN"
| "divide_npf x NaN = NaN"
| "divide_npf (Fin a) (Fin b) = (if b = 0 then inf_of_sign a else Fin (a / b))"
| "divide_npf (Fin a) PInf = Fin 0"
| "divide_npf (Fin a) NInf = Fin 0"
| "divide_npf PInf (Fin b) = (if b < 0 then NInf else PInf)"
| "divide_npf NInf (Fin b) = (if b < 0 then PInf else NInf)"
| "divide_npf PInf y = NaN"
| "divide_npf NInf y = NaN"

fun inverse_npf :: "npf \<Rightarrow> npf" where
  "inverse_npf (Fin b) = (if b = 0 then PInf else Fin (1 / b))"
| "inverse_npf PInf = Fin 0"
| "inverse_npf NInf = Fin 0"
| "inverse_npf NaN = NaN"

fun less_npf :: "npf \<Rightarrow> npf \<Rightarrow> bool" where
  "less_npf NaN y = False"
| "less_npf x NaN = False"
| "less_npf (Fin a) (Fin b) = (a < b)"
| "less_npf x NInf = False"
| "less_npf PInf y = False"
| "less_npf NInf y = True"
| "less_npf x PInf = True"

fun less_eq_npf :: "npf \<Rightarrow> npf \<Rightarrow> bool" where
  "less_eq_npf NaN y = False"
| "less_eq_npf x NaN = False"
| "less_eq_npf (Fin a) (Fin b) = (a \<le> b)"
| "less_eq_npf NInf y = True"
| "less_eq_npf x PInf = True"
| "less_eq_npf x NInf = False"
| "less_eq_npf PInf y = False"

instance ..

end

text \<open>
  \<^verbatim>\<open>x ** y\<close> on a positive base is \<open>x powr y\<close>. On a negative base it is defined for an
  integer exponent only. (HOL's \<open>powr\<close> is total: \<open>0 powr y = 0\<close> also for \<open>y \<le> 0\<close>, and a
  negative base is read through its absolute value, so it is used on positive bases only.)
\<close>

definition real_pow :: "real \<Rightarrow> real \<Rightarrow> real" where
  "real_pow x y =
     (if 0 < x then x powr y
      else if even \<lfloor>y\<rfloor> then \<bar>x\<bar> powr y
      else - (\<bar>x\<bar> powr y))"

text \<open>numpy's \<^verbatim>\<open>array ** scalar\<close>, one entry: C's \<^verbatim>\<open>pow\<close> with a finite exponent.\<close>

fun np_power :: "npf \<Rightarrow> real \<Rightarrow> npf" where
  "np_power (Fin x) y =
     (if y = 0 then Fin 1
      else if x = 0 then (if y < 0 then PInf else Fin 0)
      else if x < 0 \<and> y \<notin> \<int> then NaN
      else Fin (real_pow x y))"
| "np_power PInf y = (if y = 0 then Fin 1 else if y < 0 then Fin 0 else PInf)"
| "np_power NInf y =
     (if y = 0 then Fin 1 else if y < 0 then Fin 0
      else if y \<in> \<int> \<and> odd \<lfloor>y\<rfloor> then NInf else PInf)"
| "np_power NaN y = (if y = 0 then Fin 1 else NaN)"

text \<open>\<^verbatim>\<open>np.minimum\<close>, one entry: NaN propagates.\<close>

fun np_minimum :: "npf \<Rightarrow> npf \<Rightarrow> npf" where
  "np_minimum NaN y = NaN"
| "np_minimum x NaN = NaN"
| "np_minimum x y = (if y < x then y else x)"

text \<open>\<^verbatim>\<open>np.sum\<close> along one row.\<close>

definition np_sum :: "npf list \<Rightarrow> npf" where
  "np_sum xs = foldl (+) (Fin 0) xs"

text \<open>
  The scalar parameters are Python floats, and Python raises where numpy does not. The
  exceptions and the exit the code can run into:
\<close>

datatype py_exc = ZeroDivisionError | ValueError | IndexError | AttributeError | SystemExit

text \<open>
  Python 2's \<^verbatim>\<open>x ** y\<close> on two floats: what it raises, and its value when it raises nothing.
\<close>

definition py_pow_raises :: "real \<Rightarrow> real \<Rightarrow> py_exc option" where
  "py_pow_raises x y =
     (if y = 0 then None
      else if x = 0 then (if y < 0 then Some ZeroDivisionError else None)
      else if x < 0 \<and> y \<notin> \<int> then Some ValueError
      else None)"

definition py_pow :: "real \<Rightarrow> real \<Rightarrow> real" where
  "py_pow x y = (if y = 0 then 1 else if x = 0 then 0 else real_pow x y)"

text \<open>
  The scalar parameters are Python floats, binary64 numbers, and an operation on two of them
  gives the float nearest to the exact result, the one with the even significand on a tie.
  \<open>fl x\<close> is that float: \<open>float_exponent x\<close> is the binade of \<open>x\<close>, kept within the
  exponents \<open>-1022 .. 1023\<close> of the format (so that small numbers are rounded to multiples of
  \<open>2 ^ -1074\<close>, as subnormal floats are), and the result is a multiple of the unit in the
  last of 53 binary places. A result beyond the largest float is not turned into an
  infinity. The tests of the solver on its scalar parameters are evaluated in this
  arithmetic, since a test decides what the call returns; what the arrays hold is described
  in exact arithmetic.
\<close>

definition round_half_even :: "real \<Rightarrow> int" where
  "round_half_even x =
     (let n = \<lfloor>x\<rfloor>; r = x - of_int n
      in if r < 1/2 then n else if 1/2 < r then n + 1 else if even n then n else n + 1)"

fun expo_up :: "nat \<Rightarrow> real \<Rightarrow> int" where
  "expo_up 0 x = 0"
| "expo_up (Suc n) x = (if x < 2 then 0 else 1 + expo_up n (x / 2))"

fun expo_down :: "nat \<Rightarrow> real \<Rightarrow> int" where
  "expo_down 0 x = 0"
| "expo_down (Suc n) x = (if 1 \<le> x then 0 else expo_down n (2 * x) - 1)"

definition float_exponent :: "real \<Rightarrow> int" where
  "float_exponent x = (if 1 \<le> \<bar>x\<bar> then expo_up 1023 \<bar>x\<bar> else expo_down 1022 \<bar>x\<bar>)"

definition two_to :: "int \<Rightarrow> real" where
  "two_to k = (if 0 \<le> k then 2 ^ nat k else 1 / 2 ^ nat (- k))"

definition fl :: "real \<Rightarrow> real" where
  "fl x = (let u = two_to (float_exponent x - 52) in u * of_int (round_half_even (x / u)))"

section \<open>Arrays\<close>

text \<open>A two-dimensional array is the list of its rows.\<close>

type_synonym arr1 = "npf list"
type_synonym arr2 = "npf list list"

text \<open>\<^verbatim>\<open>np.tile(np.reshape(v,(n,1)),(1,m))\<close>: entry \<open>(i, j)\<close> is \<open>v[i]\<close>.\<close>

definition tile_cols :: "arr1 \<Rightarrow> nat \<Rightarrow> arr2" where
  "tile_cols v m = map (\<lambda>x. replicate m x) v"

text \<open>\<^verbatim>\<open>np.tile(np.reshape(v,(1,m)),(n,1))\<close>: entry \<open>(i, j)\<close> is \<open>v[j]\<close>.\<close>

definition tile_rows :: "arr1 \<Rightarrow> nat \<Rightarrow> arr2" where
  "tile_rows v n = replicate n v"

text \<open>An operation applied entry by entry to one array, or to two arrays of one shape.\<close>

definition amap :: "(npf \<Rightarrow> npf) \<Rightarrow> arr2 \<Rightarrow> arr2" where
  "amap f A = map (map f) A"

definition amap2 :: "(npf \<Rightarrow> npf \<Rightarrow> npf) \<Rightarrow> arr2 \<Rightarrow> arr2 \<Rightarrow> arr2" where
  "amap2 f A B = map2 (map2 f) A B"

text \<open>\<^verbatim>\<open>A[i, j]\<close> and \<^verbatim>\<open>A[:, j]\<close>.\<close>

definition entry :: "arr2 \<Rightarrow> nat \<Rightarrow> nat \<Rightarrow> npf" where
  "entry A i j = A ! i ! j"

definition column :: "arr2 \<Rightarrow> nat \<Rightarrow> arr1" where
  "column A j = map (\<lambda>row. row ! j) A"

text \<open>\<^verbatim>\<open>A[:, 0] = v\<close>: row \<open>i\<close> gets \<open>v[i]\<close> in its first place.\<close>

definition set_column0 :: "arr2 \<Rightarrow> arr1 \<Rightarrow> arr2" where
  "set_column0 A v = map2 (\<lambda>row x. row[0 := x]) A v"

text \<open>\<^verbatim>\<open>A[0, 0] = x\<close>.\<close>

definition set_entry00 :: "arr2 \<Rightarrow> npf \<Rightarrow> arr2" where
  "set_entry00 A x = A[0 := (A ! 0)[0 := x]]"

section \<open>Utility kernels and function objects\<close>

text \<open>
  Modelled from the spec: the CRRA marginal utility and its inverse (\<^verbatim>\<open>HARK.utilities\<close> is not
  among the sources). The spec names them the forward CRRA marginal-utility transform and the
  inverse marginal utility; marginal utility of \<open>c\<close> is \<open>c ** -gam\<close>, its inverse at \<open>uP\<close> is
  \<open>uP ** (-1/gam)\<close>. The exponent \<open>-1/gam\<close> is a Python scalar: the caller checks \<open>gam \<noteq> 0\<close>.
\<close>

definition CRRAutilityP :: "npf \<Rightarrow> real \<Rightarrow> npf" where
  "CRRAutilityP c gam = np_power c (- gam)"

definition CRRAutilityP_inv :: "npf \<Rightarrow> real \<Rightarrow> npf" where
  "CRRAutilityP_inv uP gam = np_power uP (- 1 / gam)"

text \<open>
  Modelled from the spec: the interpolation primitives of \<^verbatim>\<open>HARK.interpolation\<close> and the
  marginal-value wrappers (section 6 of the spec; their classes are not among the sources).
  A function object is the constructor call that built it; \<open>eval1\<close> and \<open>eval2\<close> call it at
  one point. \<open>ConstantFunction\<close> ignores its input, whether called with one argument or two.
\<close>

datatype func1 =
    LinearInterp arr1 arr1
  | ConstantFunction real
  | MargValueFunc func1 real

datatype func2 =
    BilinearInterp arr2 arr1 arr1
  | LinearInterpOnInterp1D "func1 list" arr1
  | VariableLowerBoundFunc2D func2 func1
  | MargValueFunc2D func2 real
  | ConstantFunction2D real

text \<open>
  The segment of an ordered grid that a point is interpolated on, by its right end: the first
  node not below the point, kept within \<open>1 .. n - 1\<close>, so that a point outside the grid is
  extrapolated along the nearest segment.
\<close>

definition segment :: "arr1 \<Rightarrow> npf \<Rightarrow> nat" where
  "segment xs x = max (min (length (filter (\<lambda>v. v < x) xs)) (length xs - 1)) 1"

text \<open>Linear interpolation between two values with weight \<open>alpha\<close> on the second.\<close>

definition blend :: "npf \<Rightarrow> npf \<Rightarrow> npf \<Rightarrow> npf" where
  "blend alpha y0 y1 = (Fin 1 - alpha) * y0 + alpha * y1"

definition weight :: "arr1 \<Rightarrow> nat \<Rightarrow> npf \<Rightarrow> npf" where
  "weight xs i x = (x - xs ! (i - 1)) / (xs ! i - xs ! (i - 1))"

text \<open>
  An interpolant over fewer than two nodes, or over lists of different lengths, has no
  segment to evaluate: the model gives NaN, the invalid marker.
\<close>

definition interp1 :: "arr1 \<Rightarrow> arr1 \<Rightarrow> npf \<Rightarrow> npf" where
  "interp1 xs ys x =
     (if length xs < 2 \<or> length ys \<noteq> length xs then NaN
      else let i = segment xs x
           in blend (weight xs i x) (ys ! (i - 1)) (ys ! i))"

fun eval1 :: "func1 \<Rightarrow> npf \<Rightarrow> npf" where
  "eval1 (LinearInterp xs ys) x = interp1 xs ys x"
| "eval1 (ConstantFunction v) x = Fin v"
| "eval1 (MargValueFunc cFunc gam) x = CRRAutilityP (eval1 cFunc x) gam"

definition interp_on_interp :: "func1 list \<Rightarrow> arr1 \<Rightarrow> npf \<Rightarrow> npf \<Rightarrow> npf" where
  "interp_on_interp fs ys x y =
     (if length ys < 2 \<or> length fs \<noteq> length ys then NaN
      else let j = segment ys y
           in blend (weight ys j y) (eval1 (fs ! (j - 1)) x) (eval1 (fs ! j) x))"

definition bilinear :: "arr2 \<Rightarrow> arr1 \<Rightarrow> arr1 \<Rightarrow> npf \<Rightarrow> npf \<Rightarrow> npf" where
  "bilinear f xs ys x y =
     (if length xs < 2 \<or> length ys < 2 \<or> length f \<noteq> length xs
         \<or> (\<exists>row \<in> set f. length row \<noteq> length ys) then NaN
      else let i = segment xs x; j = segment ys y
           in blend (weight xs i x)
                (blend (weight ys j y) (f ! (i - 1) ! (j - 1)) (f ! (i - 1) ! j))
                (blend (weight ys j y) (f ! i ! (j - 1)) (f ! i ! j)))"

text \<open>
  \<open>VariableLowerBoundFunc2D f lowerBound\<close> is \<open>f\<close> over the balance in excess of the bound
  (the interpolants of step 9 start at 0), and invalid below the bound.
\<close>

fun eval2 :: "func2 \<Rightarrow> npf \<Rightarrow> npf \<Rightarrow> npf" where
  "eval2 (BilinearInterp f xs ys) x y = bilinear f xs ys x y"
| "eval2 (LinearInterpOnInterp1D fs ys) x y = interp_on_interp fs ys x y"
| "eval2 (VariableLowerBoundFunc2D f lowerBound) x y =
     (let xShift = eval1 lowerBound y
      in if x < xShift then NaN else eval2 f (x - xShift) y)"
| "eval2 (MargValueFunc2D cFunc gam) x y = CRRAutilityP (eval2 cFunc x y) gam"
| "eval2 (ConstantFunction2D v) x y = Fin v"

text \<open>
  \<open>ValueFunc2D\<close> is constructed by the terminal solver and never called in this file; the
  spec does not describe it, so it is kept as the constructor call alone.
\<close>

datatype vfunc = ValueFunc2D func2 real

section \<open>The solution of one period\<close>

text \<open>
  \<^verbatim>\<open>ConsumerLaborSolution.__init__\<close> sets an attribute only when its argument is not
  \<^verbatim>\<open>None\<close>: a missing attribute is \<open>None\<close> here.
\<close>

record ConsumerLaborSolution =
  cFunc :: "func2 option"
  LbrFunc :: "func2 option"
  vFunc :: "vfunc option"
  vPfunc :: "func2 option"
  bNrmMin :: "func1 option"

section \<open>The terminal solver\<close>

text \<open>
  \<^verbatim>\<open>LaborIntMargConsumerType.updateSolutionTerminal\<close>. The attributes it reads are its
  arguments here, and the solution it stores in \<^verbatim>\<open>self.solution_terminal\<close> is its result.
  \<^verbatim>\<open>xs[t]\<close> with \<open>t = -1\<close> when time flows forward and \<open>t = 0\<close> otherwise:
\<close>

definition pick :: "bool \<Rightarrow> 'a list \<Rightarrow> py_exc + 'a" where
  "pick time_flow xs =
     (if xs = [] then Inl IndexError
      else Inr (if time_flow then last xs else hd xs))"

text \<open>\<^verbatim>\<open>bNrmGrid = np.insert(self.aXtraGrid,0,0.0)\<close>\<close>

definition bNrmGrid_term :: "real list \<Rightarrow> arr1" where
  "bNrmGrid_term aXtraGrid = Fin 0 # map Fin aXtraGrid"

definition bNrmGridTerm :: "real list \<Rightarrow> real list \<Rightarrow> arr2" where
  "bNrmGridTerm aXtraGrid TranShkGrid =
     tile_cols (bNrmGrid_term aXtraGrid) (length TranShkGrid)"

definition TranShkGridTerm :: "real list \<Rightarrow> real list \<Rightarrow> arr2" where
  "TranShkGridTerm aXtraGrid TranShkGrid =
     tile_rows (map Fin TranShkGrid) (length (bNrmGrid_term aXtraGrid))"

text \<open>
  \<^verbatim>\<open>LsrTerm = np.minimum((LbrCost/(1.+LbrCost))*(bNrmGridTerm/(WageRte*TranShkGridTerm)+1.),1.0)\<close>
  and \<^verbatim>\<open>LsrTerm[0,0] = 1.0\<close>
\<close>

definition LsrTerm_formula :: "real \<Rightarrow> real \<Rightarrow> npf \<Rightarrow> npf \<Rightarrow> npf" where
  "LsrTerm_formula LbrCost WageRte b shk =
     np_minimum (Fin (LbrCost / (1 + LbrCost)) * (b / (Fin WageRte * shk) + Fin 1)) (Fin 1)"

definition LsrTerm :: "real \<Rightarrow> real \<Rightarrow> real list \<Rightarrow> real list \<Rightarrow> arr2" where
  "LsrTerm LbrCost WageRte aXtraGrid TranShkGrid =
     set_entry00
       (amap2 (LsrTerm_formula LbrCost WageRte)
          (bNrmGridTerm aXtraGrid TranShkGrid) (TranShkGridTerm aXtraGrid TranShkGrid))
       (Fin 1)"

text \<open>\<^verbatim>\<open>LbrTerm = 1.0 - LsrTerm\<close>\<close>

definition LbrTerm :: "real \<Rightarrow> real \<Rightarrow> real list \<Rightarrow> real list \<Rightarrow> arr2" where
  "LbrTerm LbrCost WageRte aXtraGrid TranShkGrid =
     amap (\<lambda>z. Fin 1 - z) (LsrTerm LbrCost WageRte aXtraGrid TranShkGrid)"

text \<open>
  \<^verbatim>\<open>mNrmTerm = bNrmGridTerm + LbrTerm*WageRte*TranShkGridTerm\<close> and
  \<^verbatim>\<open>cNrmTerm = mNrmTerm\<close>
\<close>

definition cNrmTerm :: "real \<Rightarrow> real \<Rightarrow> real list \<Rightarrow> real list \<Rightarrow> arr2" where
  "cNrmTerm LbrCost WageRte aXtraGrid TranShkGrid =
     amap2 (+) (bNrmGridTerm aXtraGrid TranShkGrid)
       (amap2 (*) (amap (\<lambda>l. l * Fin WageRte) (LbrTerm LbrCost WageRte aXtraGrid TranShkGrid))
          (TranShkGridTerm aXtraGrid TranShkGrid))"

text \<open>\<^verbatim>\<open>xEffTerm = LsrTerm**LbrCost*cNrmTerm\<close>\<close>

definition xEffTerm :: "real \<Rightarrow> real \<Rightarrow> real list \<Rightarrow> real list \<Rightarrow> arr2" where
  "xEffTerm LbrCost WageRte aXtraGrid TranShkGrid =
     amap2 (*) (amap (\<lambda>z. np_power z LbrCost) (LsrTerm LbrCost WageRte aXtraGrid TranShkGrid))
       (cNrmTerm LbrCost WageRte aXtraGrid TranShkGrid)"

text \<open>
  \<^verbatim>\<open>vPterm = LsrTerm**LbrCost*CRRAutilityP(xEffTerm,gam=self.CRRA)\<close> and
  \<^verbatim>\<open>vPnvrsTerm = CRRAutilityP_inv(vPterm,gam=self.CRRA)\<close>
\<close>

definition vPterm :: "real \<Rightarrow> real \<Rightarrow> real \<Rightarrow> real list \<Rightarrow> real list \<Rightarrow> arr2" where
  "vPterm CRRA LbrCost WageRte aXtraGrid TranShkGrid =
     amap2 (*) (amap (\<lambda>z. np_power z LbrCost) (LsrTerm LbrCost WageRte aXtraGrid TranShkGrid))
       (amap (\<lambda>x. CRRAutilityP x CRRA) (xEffTerm LbrCost WageRte aXtraGrid TranShkGrid))"

definition vPnvrsTerm :: "real \<Rightarrow> real \<Rightarrow> real \<Rightarrow> real list \<Rightarrow> real list \<Rightarrow> arr2" where
  "vPnvrsTerm CRRA LbrCost WageRte aXtraGrid TranShkGrid =
     amap (\<lambda>v. CRRAutilityP_inv v CRRA) (vPterm CRRA LbrCost WageRte aXtraGrid TranShkGrid)"

text \<open>The pseudo-inverse marginal value function the marginal value function is built on.\<close>

definition vPnvrsFunc_terminal :: "real \<Rightarrow> real \<Rightarrow> real \<Rightarrow> real list \<Rightarrow> real list \<Rightarrow> func2" where
  "vPnvrsFunc_terminal CRRA LbrCost WageRte aXtraGrid TranShkGrid =
     BilinearInterp (vPnvrsTerm CRRA LbrCost WageRte aXtraGrid TranShkGrid)
       (bNrmGrid_term aXtraGrid) (map Fin TranShkGrid)"

text \<open>
  The solution the method stores, from the grid, cost and wage of the chosen period. The
  interpolants are built in the order of the source.
\<close>

definition solution_terminal_of ::
  "real \<Rightarrow> real \<Rightarrow> real \<Rightarrow> real list \<Rightarrow> real list \<Rightarrow> ConsumerLaborSolution" where
  "solution_terminal_of CRRA LbrCost WageRte aXtraGrid TranShkGrid =
     (let bNrmGrid = bNrmGrid_term aXtraGrid;
          LbrFunc_terminal =
            BilinearInterp (LbrTerm LbrCost WageRte aXtraGrid TranShkGrid) bNrmGrid (map Fin TranShkGrid);
          cFunc_terminal =
            BilinearInterp (cNrmTerm LbrCost WageRte aXtraGrid TranShkGrid) bNrmGrid (map Fin TranShkGrid);
          vNvrsFunc_terminal =
            BilinearInterp (xEffTerm LbrCost WageRte aXtraGrid TranShkGrid) bNrmGrid (map Fin TranShkGrid);
          vFunc_terminal = ValueFunc2D vNvrsFunc_terminal CRRA;
          vPfunc_terminal =
            MargValueFunc2D (vPnvrsFunc_terminal CRRA LbrCost WageRte aXtraGrid TranShkGrid) CRRA;
          bNrmMin_terminal = ConstantFunction 0
      in \<lparr>cFunc = Some cFunc_terminal, LbrFunc = Some LbrFunc_terminal,
          vFunc = Some vFunc_terminal, vPfunc = Some vPfunc_terminal,
          bNrmMin = Some bNrmMin_terminal\<rparr>)"

text \<open>
  The method itself. \<^verbatim>\<open>self.TranShkGrid[t]\<close>, \<^verbatim>\<open>self.LbrCost[t]\<close> and \<^verbatim>\<open>self.WageRte[t]\<close>
  raise on an empty list, \<^verbatim>\<open>LbrCost/(1.+LbrCost)\<close> divides two Python floats,
  \<^verbatim>\<open>LsrTerm[0,0]\<close> needs a column, and \<^verbatim>\<open>CRRAutilityP_inv\<close> divides by \<^verbatim>\<open>gam\<close>.
\<close>

definition updateSolutionTerminal ::
  "bool \<Rightarrow> real list list \<Rightarrow> real list \<Rightarrow> real list \<Rightarrow> real list \<Rightarrow> real
     \<Rightarrow> py_exc + ConsumerLaborSolution" where
  "updateSolutionTerminal time_flow TranShkGrids LbrCosts WageRtes aXtraGrid CRRA =
     (case pick time_flow TranShkGrids of Inl e \<Rightarrow> Inl e | Inr TranShkGrid \<Rightarrow>
       (case pick time_flow LbrCosts of Inl e \<Rightarrow> Inl e | Inr LbrCost \<Rightarrow>
         (case pick time_flow WageRtes of Inl e \<Rightarrow> Inl e | Inr WageRte \<Rightarrow>
            if 1 + LbrCost = 0 then Inl ZeroDivisionError
            else if TranShkGrid = [] then Inl IndexError
            else if CRRA = 0 then Inl ZeroDivisionError
            else Inr (solution_terminal_of CRRA LbrCost WageRte aXtraGrid TranShkGrid))))"

section \<open>The one-period solver\<close>

text \<open>
  The arguments of \<^verbatim>\<open>solveConsLaborIntMarg\<close>. A shock distribution is the pair of its
  probabilities (index 0) and its values (index 1).
\<close>

record solver_args =
  solution_next :: ConsumerLaborSolution
  PermShkDstn :: "real list \<times> real list"
  TranShkDstn :: "real list \<times> real list"
  LivPrb :: real
  DiscFac :: real
  CRRA :: real
  Rfree :: real
  PermGroFac :: real
  BoroCnstArt :: "real option"
  aXtraGrid :: "real list"
  TranShkGrid :: "real list"
  vFuncBool :: bool
  CubicBool :: bool
  WageRte :: real
  LbrCost :: real

text \<open>
  \<^verbatim>\<open>frac = 1./(1.+LbrCost)\<close>: the float the line computes, which the tests of the solver
  read, and its value in exact arithmetic, which describes the arrays.
\<close>

definition frac_float :: "solver_args \<Rightarrow> real" where
  "frac_float p = fl (1 / fl (1 + LbrCost p))"

definition frac :: "solver_args \<Rightarrow> real" where
  "frac p = 1 / (1 + LbrCost p)"

text \<open>
  Unpacking. \<^verbatim>\<open>solution_next.vPfunc\<close> is read past the check that the attribute is there.
\<close>

definition vPfunc_next :: "solver_args \<Rightarrow> func2" where
  "vPfunc_next p = the (vPfunc (solution_next p))"

definition TranShkPrbs :: "solver_args \<Rightarrow> arr1" where
  "TranShkPrbs p = map Fin (fst (TranShkDstn p))"

definition TranShkVals :: "solver_args \<Rightarrow> arr1" where
  "TranShkVals p = map Fin (snd (TranShkDstn p))"

definition PermShkPrbs :: "solver_args \<Rightarrow> arr1" where
  "PermShkPrbs p = map Fin (fst (PermShkDstn p))"

definition PermShkVals :: "solver_args \<Rightarrow> arr1" where
  "PermShkVals p = map Fin (snd (PermShkDstn p))"

definition TranShkCount :: "solver_args \<Rightarrow> nat" where
  "TranShkCount p = length (TranShkPrbs p)"

definition PermShkCount :: "solver_args \<Rightarrow> nat" where
  "PermShkCount p = length (PermShkPrbs p)"

definition uPinv :: "solver_args \<Rightarrow> npf \<Rightarrow> npf" where
  "uPinv p X = CRRAutilityP_inv X (CRRA p)"

definition aXtraCount :: "solver_args \<Rightarrow> nat" where
  "aXtraCount p = length (aXtraGrid p)"

text \<open>The tiled grid of \<open>a\<close> values and the tiled components of the transitory distribution.\<close>

definition bNrmGrid_rep :: "solver_args \<Rightarrow> arr2" where
  "bNrmGrid_rep p = tile_cols (map Fin (aXtraGrid p)) (TranShkCount p)"

definition TranShkVals_rep :: "solver_args \<Rightarrow> arr2" where
  "TranShkVals_rep p = tile_rows (TranShkVals p) (aXtraCount p)"

definition TranShkPrbs_rep :: "solver_args \<Rightarrow> arr2" where
  "TranShkPrbs_rep p = tile_rows (TranShkPrbs p) (aXtraCount p)"

text \<open>
  \<^verbatim>\<open>bNext = Rfree * bNrmGrid_rep\<close>, \<^verbatim>\<open>vPNext = vPfunc_next(bNext, TranShkVals_rep)\<close>,
  \<^verbatim>\<open>vPbarNext = np.sum(vPNext*TranShkPrbs_rep, axis = 1)\<close> and
  \<^verbatim>\<open>vPbarNvrsNext = uPinv(vPbarNext)\<close>
\<close>

definition bNext :: "solver_args \<Rightarrow> arr2" where
  "bNext p = amap (\<lambda>b. Fin (Rfree p) * b) (bNrmGrid_rep p)"

definition vPNext :: "solver_args \<Rightarrow> arr2" where
  "vPNext p = amap2 (eval2 (vPfunc_next p)) (bNext p) (TranShkVals_rep p)"

definition vPbarNext :: "solver_args \<Rightarrow> arr1" where
  "vPbarNext p = map np_sum (amap2 (*) (vPNext p) (TranShkPrbs_rep p))"

definition vPbarNvrsNext :: "solver_args \<Rightarrow> arr1" where
  "vPbarNvrsNext p = map (uPinv p) (vPbarNext p)"

text \<open>
  \<^verbatim>\<open>vPbarNvrsFuncNext = LinearInterp(np.insert(bNext[:,0],0,0.0),np.insert(vPbarNvrsNext,0,0.0))\<close>
  and \<^verbatim>\<open>vPbarFuncNext = MargValueFunc(vPbarNvrsFuncNext,CRRA)\<close>
\<close>

definition vPbarNvrsFuncNext :: "solver_args \<Rightarrow> func1" where
  "vPbarNvrsFuncNext p = LinearInterp (Fin 0 # column (bNext p) 0) (Fin 0 # vPbarNvrsNext p)"

definition vPbarFuncNext :: "solver_args \<Rightarrow> func1" where
  "vPbarFuncNext p = MargValueFunc (vPbarNvrsFuncNext p) (CRRA p)"

text \<open>Next period's bank balances at each permanent shock.\<close>

definition aNrmGrid_rep :: "solver_args \<Rightarrow> arr2" where
  "aNrmGrid_rep p = tile_cols (map Fin (aXtraGrid p)) (PermShkCount p)"

definition PermShkVals_rep :: "solver_args \<Rightarrow> arr2" where
  "PermShkVals_rep p = tile_rows (PermShkVals p) (aXtraCount p)"

definition PermShkPrbs_rep :: "solver_args \<Rightarrow> arr2" where
  "PermShkPrbs_rep p = tile_rows (PermShkPrbs p) (aXtraCount p)"

text \<open>\<^verbatim>\<open>bNextPerm = (Rfree/(PermGroFac*PermShkVals_rep))*aNrmGrid_rep\<close>\<close>

definition bNextPerm :: "solver_args \<Rightarrow> arr2" where
  "bNextPerm p =
     amap2 (*) (amap (\<lambda>s. Fin (Rfree p) / (Fin (PermGroFac p) * s)) (PermShkVals_rep p))
       (aNrmGrid_rep p)"

text \<open>
  \<^verbatim>\<open>EndOfPrdvP_temp = DiscFac*Rfree*LivPrb*np.sum((PermGroFac*PermShkVals_rep)**(-CRRA)*vPbarFuncNext(bNextPerm)*PermShkPrbs_rep,axis=1)\<close>
\<close>

definition EndOfPrdvP_temp :: "solver_args \<Rightarrow> arr1" where
  "EndOfPrdvP_temp p =
     map (\<lambda>s. Fin (DiscFac p * Rfree p * LivPrb p) * s)
       (map np_sum
          (amap2 (*)
             (amap2 (*)
                (amap (\<lambda>s. np_power (Fin (PermGroFac p) * s) (- CRRA p)) (PermShkVals_rep p))
                (amap (eval1 (vPbarFuncNext p)) (bNextPerm p)))
             (PermShkPrbs_rep p)))"

text \<open>
  \<^verbatim>\<open>EndOfPrdvP\<close> is the same list as a column. The scale factor of each transitory shock:
  \<^verbatim>\<open>frac*(WageRte*TranShkGrid)**(LbrCost*frac)*(LbrCost**(-LbrCost*frac)+LbrCost**(frac))\<close>,
  where the last factor is a sum of powers of Python floats.
\<close>

definition EndOfPrdvP :: "solver_args \<Rightarrow> arr1" where
  "EndOfPrdvP p = EndOfPrdvP_temp p"

definition TranShkScaleFac :: "solver_args \<Rightarrow> arr1" where
  "TranShkScaleFac p =
     map (\<lambda>shk. Fin (frac p) * np_power (Fin (WageRte p) * shk) (LbrCost p * frac p)
             * Fin (py_pow (LbrCost p) (- LbrCost p * frac p) + py_pow (LbrCost p) (frac p)))
       (map Fin (TranShkGrid p))"

text \<open>
  \<^verbatim>\<open>xNowArray = (np.dot(EndOfPrdvP,TranShkScaleFac))**(-1./(CRRA-LbrCost*frac))\<close>: the product
  of a column and a row has the entry \<open>EndOfPrdvP[i] * TranShkScaleFac[j]\<close>.
\<close>

definition xNowArray :: "solver_args \<Rightarrow> arr2" where
  "xNowArray p =
     amap (\<lambda>v. np_power v (- 1 / (CRRA p - LbrCost p * frac p)))
       (map (\<lambda>e. map (\<lambda>s. e * s) (TranShkScaleFac p)) (EndOfPrdvP p))"

definition TranShkGrid_rep :: "solver_args \<Rightarrow> arr2" where
  "TranShkGrid_rep p = tile_rows (map Fin (TranShkGrid p)) (aXtraCount p)"

definition xNowPowered :: "solver_args \<Rightarrow> arr2" where
  "xNowPowered p = amap (\<lambda>x. np_power x (frac p)) (xNowArray p)"

text \<open>
  Consumption and leisure from the first-order condition, as first assigned:
  \<^verbatim>\<open>cNrmNow = (((WageRte*TranShkGrid_rep)/LbrCost)**(LbrCost*frac))*xNowPowered\<close> and
  \<^verbatim>\<open>LsrNow = (LbrCost/(WageRte*TranShkGrid_rep))**frac*xNowPowered\<close>
\<close>

definition cNrmNow_foc :: "solver_args \<Rightarrow> arr2" where
  "cNrmNow_foc p =
     amap2 (*)
       (amap (\<lambda>shk. np_power ((Fin (WageRte p) * shk) / Fin (LbrCost p)) (LbrCost p * frac p))
          (TranShkGrid_rep p))
       (xNowPowered p)"

definition LsrNow_foc :: "solver_args \<Rightarrow> arr2" where
  "LsrNow_foc p =
     amap2 (*)
       (amap (\<lambda>shk. np_power (Fin (LbrCost p) / (Fin (WageRte p) * shk)) (frac p))
          (TranShkGrid_rep p))
       (xNowPowered p)"

text \<open>\<^verbatim>\<open>cNrmNow[:,0] = uPinv(EndOfPrdvP_temp)\<close> and \<^verbatim>\<open>LsrNow[:,0] = 1.0\<close>\<close>

definition cNrmNow_col0 :: "solver_args \<Rightarrow> arr2" where
  "cNrmNow_col0 p = set_column0 (cNrmNow_foc p) (map (uPinv p) (EndOfPrdvP_temp p))"

definition LsrNow_col0 :: "solver_args \<Rightarrow> arr2" where
  "LsrNow_col0 p = set_column0 (LsrNow_foc p) (replicate (aXtraCount p) (Fin 1))"

text \<open>
  The labor constraint: \<^verbatim>\<open>violates_labor_constraint = LsrNow > 1.\<close>; the end-of-period
  marginal value tiled over the transitory shocks (the source reuses the name
  \<^verbatim>\<open>EndOfPrdvP_temp\<close> for it); and the two masked assignments
  \<^verbatim>\<open>cNrmNow[violates_labor_constraint] = uPinv(EndOfPrdvP_temp[violates_labor_constraint])\<close>,
  \<^verbatim>\<open>LsrNow[violates_labor_constraint] = 1.\<close>
\<close>

definition violates_labor_constraint :: "solver_args \<Rightarrow> bool list list" where
  "violates_labor_constraint p = map (map (\<lambda>z. Fin 1 < z)) (LsrNow_col0 p)"

definition EndOfPrdvP_tiled :: "solver_args \<Rightarrow> arr2" where
  "EndOfPrdvP_tiled p = tile_cols (EndOfPrdvP p) (TranShkCount p)"

definition masked_assign :: "bool list list \<Rightarrow> arr2 \<Rightarrow> arr2 \<Rightarrow> arr2" where
  "masked_assign violates A V =
     map2 (\<lambda>ms (as, vs). map2 (\<lambda>m (a, v). if m then v else a) ms (zip as vs))
       violates (zip A V)"

definition cNrmNow :: "solver_args \<Rightarrow> arr2" where
  "cNrmNow p =
     masked_assign (violates_labor_constraint p) (cNrmNow_col0 p)
       (amap (uPinv p) (EndOfPrdvP_tiled p))"

definition LsrNow :: "solver_args \<Rightarrow> arr2" where
  "LsrNow p =
     masked_assign (violates_labor_constraint p) (LsrNow_col0 p)
       (map (map (\<lambda>z. Fin 1)) (LsrNow_col0 p))"

text \<open>
  The bank balances of the gridpoints:
  \<^verbatim>\<open>bNrmNow = aNrmNow_rep - WageRte*TranShkGrid_rep + cNrmNow + WageRte*TranShkGrid_rep*LsrNow\<close>
\<close>

definition aNrmNow_rep :: "solver_args \<Rightarrow> arr2" where
  "aNrmNow_rep p = tile_cols (map Fin (aXtraGrid p)) (length (TranShkGrid p))"

definition bNrmNow :: "solver_args \<Rightarrow> arr2" where
  "bNrmNow p =
     amap2 (+)
       (amap2 (+)
          (amap2 (-) (aNrmNow_rep p) (amap (\<lambda>shk. Fin (WageRte p) * shk) (TranShkGrid_rep p)))
          (cNrmNow p))
       (amap2 (*) (amap (\<lambda>shk. Fin (WageRte p) * shk) (TranShkGrid_rep p)) (LsrNow p))"

text \<open>
  The extra row for \<open>c = 0\<close> and \<open>z = 0\<close>, \<^verbatim>\<open>bNowExtra = np.reshape(-WageRte*TranShkGrid,...)\<close>,
  and the arrays with that row on top. \<^verbatim>\<open>LsrNowArray[0,0] = 1.0\<close>;
  \<^verbatim>\<open>LbrNowArray = 1. - LsrNowArray\<close>.
\<close>

definition bNowExtra :: "solver_args \<Rightarrow> arr1" where
  "bNowExtra p = map (\<lambda>shk. Fin (- WageRte p) * shk) (map Fin (TranShkGrid p))"

definition zeros_row :: "solver_args \<Rightarrow> arr1" where
  "zeros_row p = replicate (length (TranShkGrid p)) (Fin 0)"

definition bNowArray :: "solver_args \<Rightarrow> arr2" where
  "bNowArray p = bNowExtra p # bNrmNow p"

definition cNowArray :: "solver_args \<Rightarrow> arr2" where
  "cNowArray p = zeros_row p # cNrmNow p"

definition LsrNowArray :: "solver_args \<Rightarrow> arr2" where
  "LsrNowArray p = set_entry00 (zeros_row p # LsrNow p) (Fin 1)"

definition LbrNowArray :: "solver_args \<Rightarrow> arr2" where
  "LbrNowArray p = amap (\<lambda>z. Fin 1 - z) (LsrNowArray p)"

text \<open>
  The pseudo-inverse marginal value, \<^verbatim>\<open>vPnvrsNow = uPinv(EndOfPrdvP_temp)\<close> (of the tiled
  array), with a row of zeros on top.
\<close>

definition vPnvrsNow :: "solver_args \<Rightarrow> arr2" where
  "vPnvrsNow p = amap (uPinv p) (EndOfPrdvP_tiled p)"

definition vPnvrsNowArray :: "solver_args \<Rightarrow> arr2" where
  "vPnvrsNowArray p = zeros_row p # vPnvrsNow p"

text \<open>\<^verbatim>\<open>bNrmMinNow = LinearInterp(TranShkGrid,bNowArray[0,:])\<close>\<close>

definition bNrmMinNow :: "solver_args \<Rightarrow> func1" where
  "bNrmMinNow p = LinearInterp (map Fin (TranShkGrid p)) (bNowArray p ! 0)"

text \<open>
  The loop over the transitory shocks: for each \<open>j\<close>, the balances of column \<open>j\<close> less the
  lowest one, \<^verbatim>\<open>bNrmNow_temp = bNowArray[:,j] - bNowArray[0,j]\<close>, and one interpolant each
  of consumption, labor and pseudo-inverse marginal value over them.
\<close>

definition bNrmNow_temp :: "solver_args \<Rightarrow> nat \<Rightarrow> arr1" where
  "bNrmNow_temp p j = map (\<lambda>b. b - entry (bNowArray p) 0 j) (column (bNowArray p) j)"

definition cFuncNow_list :: "solver_args \<Rightarrow> func1 list" where
  "cFuncNow_list p =
     map (\<lambda>j. LinearInterp (bNrmNow_temp p j) (column (cNowArray p) j))
       [0 ..< length (TranShkGrid p)]"

definition LbrFuncNow_list :: "solver_args \<Rightarrow> func1 list" where
  "LbrFuncNow_list p =
     map (\<lambda>j. LinearInterp (bNrmNow_temp p j) (column (LbrNowArray p) j))
       [0 ..< length (TranShkGrid p)]"

definition vPnvrsFuncNow_list :: "solver_args \<Rightarrow> func1 list" where
  "vPnvrsFuncNow_list p =
     map (\<lambda>j. LinearInterp (bNrmNow_temp p j) (column (vPnvrsNowArray p) j))
       [0 ..< length (TranShkGrid p)]"

text \<open>The functions over both arguments, and the same with the lower bound.\<close>

definition cFuncNowBase :: "solver_args \<Rightarrow> func2" where
  "cFuncNowBase p = LinearInterpOnInterp1D (cFuncNow_list p) (map Fin (TranShkGrid p))"

definition LbrFuncNowBase :: "solver_args \<Rightarrow> func2" where
  "LbrFuncNowBase p = LinearInterpOnInterp1D (LbrFuncNow_list p) (map Fin (TranShkGrid p))"

definition vPnvrsFuncNowBase :: "solver_args \<Rightarrow> func2" where
  "vPnvrsFuncNowBase p = LinearInterpOnInterp1D (vPnvrsFuncNow_list p) (map Fin (TranShkGrid p))"

definition cFuncNow :: "solver_args \<Rightarrow> func2" where
  "cFuncNow p = VariableLowerBoundFunc2D (cFuncNowBase p) (bNrmMinNow p)"

definition LbrFuncNow :: "solver_args \<Rightarrow> func2" where
  "LbrFuncNow p = VariableLowerBoundFunc2D (LbrFuncNowBase p) (bNrmMinNow p)"

definition vPnvrsFuncNow :: "solver_args \<Rightarrow> func2" where
  "vPnvrsFuncNow p = VariableLowerBoundFunc2D (vPnvrsFuncNowBase p) (bNrmMinNow p)"

text \<open>\<^verbatim>\<open>vPfuncNow = MargValueFunc2D(vPnvrsFuncNow,CRRA)\<close>\<close>

definition vPfuncNow :: "solver_args \<Rightarrow> func2" where
  "vPfuncNow p = MargValueFunc2D (vPnvrsFuncNow p) (CRRA p)"

definition solution_now :: "solver_args \<Rightarrow> ConsumerLaborSolution" where
  "solution_now p =
     \<lparr>cFunc = Some (cFuncNow p), LbrFunc = Some (LbrFuncNow p), vFunc = None,
      vPfunc = Some (vPfuncNow p), bNrmMin = Some (bNrmMinNow p)\<rparr>"

text \<open>
  The function. Its result is an exception or exit (\<open>Inl\<close>), \<^verbatim>\<open>None\<close> (\<open>Inr None\<close>) or the
  solution. The checks come in the order in which the source reaches them: the division in
  \<^verbatim>\<open>frac\<close>; the test \<^verbatim>\<open>CRRA <= frac*LbrCost\<close>, on the product as the floats give it; the
  two other configuration checks; the attribute \<^verbatim>\<open>vPfunc\<close>; the reshape of the transitory
  values to \<^verbatim>\<open>(1,TranShkCount)\<close>; the division by \<^verbatim>\<open>gam\<close> in \<^verbatim>\<open>uPinv\<close>; \<^verbatim>\<open>bNext[:,0]\<close>;
  the reshape of the permanent values; the two powers of \<^verbatim>\<open>LbrCost\<close>; the division in
  \<^verbatim>\<open>-1./(CRRA-LbrCost*frac)\<close>; \<^verbatim>\<open>cNrmNow[:,0]\<close>; and the mask of the shape of
  \<^verbatim>\<open>TranShkGrid\<close> applied to an array of the shape of the transitory distribution.
  \<^verbatim>\<open>CubicBool is True\<close> is \<^verbatim>\<open>CubicBool\<close> for a boolean.
\<close>

definition solveConsLaborIntMarg :: "solver_args \<Rightarrow> py_exc + ConsumerLaborSolution option" where
  "solveConsLaborIntMarg p =
     (if fl (1 + LbrCost p) = 0 then Inl ZeroDivisionError
      else if CRRA p \<le> fl (frac_float p * LbrCost p) then Inl SystemExit
      else if BoroCnstArt p \<noteq> None then Inr None
      else if vFuncBool p \<or> CubicBool p then Inr None
      else if vPfunc (solution_next p) = None then Inl AttributeError
      else if length (TranShkVals p) \<noteq> TranShkCount p then Inl ValueError
      else if CRRA p = 0 then Inl ZeroDivisionError
      else if TranShkCount p = 0 then Inl IndexError
      else if length (PermShkVals p) \<noteq> PermShkCount p then Inl ValueError
      else if py_pow_raises (LbrCost p) (fl (- LbrCost p * frac_float p)) \<noteq> None
        then Inl (the (py_pow_raises (LbrCost p) (fl (- LbrCost p * frac_float p))))
      else if py_pow_raises (LbrCost p) (frac_float p) \<noteq> None
        then Inl (the (py_pow_raises (LbrCost p) (frac_float p)))
      else if fl (CRRA p - fl (LbrCost p * frac_float p)) = 0 then Inl ZeroDivisionError
      else if length (TranShkGrid p) = 0 then Inl IndexError
      else if length (TranShkGrid p) \<noteq> TranShkCount p then Inl IndexError
      else Inr (Some (solution_now p)))"

text \<open>
  The same call on a store. A Python object lives at an address: a solution, whose
  attributes \<^verbatim>\<open>setattr\<close> can change, or an array, which an assignment to its entries
  changes in place. \<^verbatim>\<open>solution_next\<close> is passed as the address of a solution.
\<close>

datatype obj = Sol ConsumerLaborSolution | Arr arr2

type_synonym store = "obj list"

text \<open>A new object gets the next free address.\<close>

definition new :: "store \<Rightarrow> obj \<Rightarrow> store \<times> nat" where
  "new h x = (h @ [x], length h)"

text \<open>Reading an object; an array has none of the attributes of a solution.\<close>

fun the_arr :: "obj \<Rightarrow> arr2" where
  "the_arr (Arr A) = A"
| "the_arr (Sol s) = []"

fun the_sol :: "obj \<Rightarrow> ConsumerLaborSolution" where
  "the_sol (Sol s) = s"
| "the_sol (Arr A) = \<lparr>cFunc = None, LbrFunc = None, vFunc = None, vPfunc = None, bNrmMin = None\<rparr>"

text \<open>
  The two writes: an assignment into the array at an address, \<^verbatim>\<open>A[...] = ...\<close>, and
  \<^verbatim>\<open>setattr\<close> on the solution at an address.
\<close>

definition update_arr :: "store \<Rightarrow> nat \<Rightarrow> (arr2 \<Rightarrow> arr2) \<Rightarrow> store" where
  "update_arr h a f = h[a := Arr (f (the_arr (h ! a)))]"

definition setattr :: "store \<Rightarrow> nat \<Rightarrow> (ConsumerLaborSolution \<Rightarrow> ConsumerLaborSolution) \<Rightarrow> store" where
  "setattr h a f = h[a := (case h ! a of Sol s \<Rightarrow> Sol (f s) | Arr A \<Rightarrow> Arr A)]"

text \<open>
  \<^verbatim>\<open>ConsumerLaborSolution.__init__\<close>: a new object, and one \<^verbatim>\<open>setattr\<close> on it for each
  argument that is not \<^verbatim>\<open>None\<close>.
\<close>

definition ConsumerLaborSolution_init ::
  "store \<Rightarrow> func2 option \<Rightarrow> func2 option \<Rightarrow> vfunc option \<Rightarrow> func2 option \<Rightarrow> func1 option
     \<Rightarrow> store \<times> nat" where
  "ConsumerLaborSolution_init h cFunc' LbrFunc' vFunc' vPfunc' bNrmMin' =
     (let (h0, self) =
            new h (Sol \<lparr>cFunc = None, LbrFunc = None, vFunc = None, vPfunc = None, bNrmMin = None\<rparr>);
          h1 = (if cFunc' \<noteq> None then setattr h0 self (\<lambda>s. s\<lparr>cFunc := cFunc'\<rparr>) else h0);
          h2 = (if LbrFunc' \<noteq> None then setattr h1 self (\<lambda>s. s\<lparr>LbrFunc := LbrFunc'\<rparr>) else h1);
          h3 = (if vFunc' \<noteq> None then setattr h2 self (\<lambda>s. s\<lparr>vFunc := vFunc'\<rparr>) else h2);
          h4 = (if vPfunc' \<noteq> None then setattr h3 self (\<lambda>s. s\<lparr>vPfunc := vPfunc'\<rparr>) else h3);
          h5 = (if bNrmMin' \<noteq> None then setattr h4 self (\<lambda>s. s\<lparr>bNrmMin := bNrmMin'\<rparr>) else h4)
      in (h5, self))"

text \<open>
  Steps 6 to 12 of the source as a function of the three arrays it reads back after the
  assignments: \<^verbatim>\<open>cNrmNow\<close>, \<^verbatim>\<open>LsrNow\<close> and \<^verbatim>\<open>LsrNowArray\<close>. The result is the four
  functions of the solution.
\<close>

definition functions_from ::
  "solver_args \<Rightarrow> arr2 \<Rightarrow> arr2 \<Rightarrow> arr2 \<Rightarrow> func2 \<times> func2 \<times> func2 \<times> func1" where
  "functions_from p cNrmNow' LsrNow' LsrNowArray' =
     (let wage = amap (\<lambda>shk. Fin (WageRte p) * shk) (TranShkGrid_rep p);
          bNrmNow' = amap2 (+) (amap2 (+) (amap2 (-) (aNrmNow_rep p) wage) cNrmNow')
                       (amap2 (*) wage LsrNow');
          bNowArray' = bNowExtra p # bNrmNow';
          cNowArray' = zeros_row p # cNrmNow';
          LbrNowArray' = amap (\<lambda>z. Fin 1 - z) LsrNowArray';
          bNrmMinNow' = LinearInterp (map Fin (TranShkGrid p)) (bNowArray' ! 0);
          bNrmNow_temp' = (\<lambda>j. map (\<lambda>b. b - entry bNowArray' 0 j) (column bNowArray' j));
          js = [0 ..< length (TranShkGrid p)];
          over = (\<lambda>Y. VariableLowerBoundFunc2D
                    (LinearInterpOnInterp1D
                       (map (\<lambda>j. LinearInterp (bNrmNow_temp' j) (column Y j)) js)
                       (map Fin (TranShkGrid p)))
                    bNrmMinNow')
      in (over cNowArray', over LbrNowArray',
          MargValueFunc2D (over (vPnvrsNowArray p)) (CRRA p), bNrmMinNow'))"

text \<open>
  The body past the checks, with every write of the source on the store. The arrays the
  source assigns into are objects of the store: \<^verbatim>\<open>cNrmNow\<close> and \<^verbatim>\<open>LsrNow\<close>, new arrays
  from the first-order condition, assigned in column 0 and under the mask; and
  \<^verbatim>\<open>LsrNowArray\<close>, a new array from \<^verbatim>\<open>np.concatenate\<close>, assigned at \<^verbatim>\<open>[0,0]\<close>. An array
  that no statement assigns into is a value. The functions are built from the arrays as the
  store holds them after the assignments, and the solution is constructed last.
\<close>

definition solver_body :: "solver_args \<Rightarrow> store \<Rightarrow> store \<times> nat" where
  "solver_body p h =
     (let (h1, c) = new h (Arr (cNrmNow_foc p));
          (h2, l) = new h1 (Arr (LsrNow_foc p));
          h3 = update_arr h2 c (\<lambda>A. set_column0 A (map (uPinv p) (EndOfPrdvP_temp p)));
          h4 = update_arr h3 l (\<lambda>A. set_column0 A (replicate (aXtraCount p) (Fin 1)));
          violates = map (map (\<lambda>z. Fin 1 < z)) (the_arr (h4 ! l));
          h5 = update_arr h4 c (\<lambda>A. masked_assign violates A (amap (uPinv p) (EndOfPrdvP_tiled p)));
          h6 = update_arr h5 l (\<lambda>A. masked_assign violates A (map (map (\<lambda>z. Fin 1)) A));
          (h7, la) = new h6 (Arr (zeros_row p # the_arr (h6 ! l)));
          h8 = update_arr h7 la (\<lambda>A. set_entry00 A (Fin 1));
          (cFuncNow', LbrFuncNow', vPfuncNow', bNrmMinNow') =
             functions_from p (the_arr (h8 ! c)) (the_arr (h8 ! l)) (the_arr (h8 ! la))
      in ConsumerLaborSolution_init h8 (Some cFuncNow') (Some LbrFuncNow') None (Some vPfuncNow')
           (Some bNrmMinNow'))"

text \<open>
  The call: \<^verbatim>\<open>solution_next\<close> is the object at address \<open>r\<close>. The checks write nothing, so
  they are those of \<open>solveConsLaborIntMarg\<close>; past them the body runs on the store, and the
  result is the address of the solution it constructs.
\<close>

definition call_solveConsLaborIntMarg ::
  "store \<Rightarrow> nat \<Rightarrow> solver_args \<Rightarrow> store \<times> (py_exc + nat option)" where
  "call_solveConsLaborIntMarg h r p =
     (let args = p\<lparr>solution_next := the_sol (h ! r)\<rparr>
      in case solveConsLaborIntMarg args of
           Inl e \<Rightarrow> (h, Inl e)
         | Inr None \<Rightarrow> (h, Inr None)
         | Inr (Some s) \<Rightarrow> (let (h', a) = solver_body args h in (h', Inr (Some a))))"

section \<open>Shapes\<close>

text \<open>An array of \<open>n\<close> rows and \<open>m\<close> columns.\<close>

definition shape :: "'a list list \<Rightarrow> nat \<Rightarrow> nat \<Rightarrow> bool" where
  "shape A n m = (length A = n \<and> (\<forall>i < n. length (A ! i) = m))"

section \<open>A worked example\<close>

text \<open>
  Two asset gridpoints and two transitory shocks, none of them zero; labor cost 1 and risk
  aversion 1, so that every power is a square root, a square or an inverse. Next period's
  marginal value is \<open>1 / b\<close> at the points the solver asks for.
\<close>

definition example_next :: ConsumerLaborSolution where
  "example_next =
     \<lparr>cFunc = None, LbrFunc = None, vFunc = None,
      vPfunc = Some (MargValueFunc2D
        (LinearInterpOnInterp1D
           [LinearInterp [Fin 0, Fin 1] [Fin 0, Fin 1], LinearInterp [Fin 0, Fin 1] [Fin 0, Fin 1]]
           [Fin 4, Fin 9]) 1),
      bNrmMin = None\<rparr>"

definition example_args :: solver_args where
  "example_args =
     \<lparr>solution_next = example_next, PermShkDstn = ([1], [1]),
      TranShkDstn = ([1/2, 1/2], [4, 9]), LivPrb = 1, DiscFac = 1, CRRA = 1, Rfree = 1,
      PermGroFac = 1, BoroCnstArt = None, aXtraGrid = [1, 18], TranShkGrid = [4, 9],
      vFuncBool = False, CubicBool = False, WageRte = 1, LbrCost = 1\<rparr>"

text \<open>
  The example with \<^verbatim>\<open>LbrCost = 0.3\<close> and \<^verbatim>\<open>CRRA = 0.23076923076923075\<close>, each written as
  the float it is: a numerator over a power of 2.
\<close>

definition rounding_args :: solver_args where
  "rounding_args =
     example_args\<lparr>LbrCost := 5404319552844595 / 18014398509481984,
       CRRA := 8314337773607069 / 36028797018963968\<rparr>"

text \<open>A store that holds the next period's solution of the example, and nothing else.\<close>

definition example_store :: store where
  "example_store = [Sol example_next]"


section \<open>The arrays and functions in real numbers\<close>

text \<open>
  For the claims about the returned functions the arrays are described in real numbers, which
  is what they hold when every operation is finite. First linear interpolation over real
  lists, with the segment chosen as \<open>segment\<close> chooses it.
\<close>

definition rseg :: "real list \<Rightarrow> real \<Rightarrow> nat" where
  "rseg xs x = max (min (length (filter (\<lambda>v. v < x) xs)) (length xs - 1)) 1"

definition lin :: "real list \<Rightarrow> real list \<Rightarrow> real \<Rightarrow> real" where
  "lin xs ys x =
     (let i = rseg xs x; w = (x - xs ! (i - 1)) / (xs ! i - xs ! (i - 1))
      in (1 - w) * ys ! (i - 1) + w * ys ! i)"

text \<open>
  The entries of the solver's arrays at one gridpoint, as functions of the end-of-period
  marginal value \<open>e\<close> of the asset level and the shock \<open>shk\<close> of the column: the inverse
  marginal utility, the scale factor, effective consumption, leisure and consumption of the
  first-order condition, and leisure, consumption and bank balance after the overwrite of
  column 0 and the clamp.
\<close>

definition uR :: "solver_args \<Rightarrow> real \<Rightarrow> real" where
  "uR p e = e powr (- 1 / CRRA p)"

definition sR :: "solver_args \<Rightarrow> real \<Rightarrow> real" where
  "sR p shk =
     frac p * (WageRte p * shk) powr (LbrCost p * frac p)
       * (LbrCost p powr (- LbrCost p * frac p) + LbrCost p powr frac p)"

definition xR :: "solver_args \<Rightarrow> real \<Rightarrow> real \<Rightarrow> real" where
  "xR p e shk = (e * sR p shk) powr (- 1 / (CRRA p - LbrCost p * frac p))"

definition LfR :: "solver_args \<Rightarrow> real \<Rightarrow> real \<Rightarrow> real" where
  "LfR p e shk = (LbrCost p / (WageRte p * shk)) powr frac p * xR p e shk powr frac p"

definition cfR :: "solver_args \<Rightarrow> real \<Rightarrow> real \<Rightarrow> real" where
  "cfR p e shk =
     ((WageRte p * shk) / LbrCost p) powr (LbrCost p * frac p) * xR p e shk powr frac p"

definition LR :: "solver_args \<Rightarrow> real \<Rightarrow> real \<Rightarrow> nat \<Rightarrow> real" where
  "LR p e shk j = (if j = 0 \<or> 1 < LfR p e shk then 1 else LfR p e shk)"

definition cR :: "solver_args \<Rightarrow> real \<Rightarrow> real \<Rightarrow> nat \<Rightarrow> real" where
  "cR p e shk j = (if j = 0 \<or> 1 < LfR p e shk then uR p e else cfR p e shk)"

definition bR :: "solver_args \<Rightarrow> real \<Rightarrow> real \<Rightarrow> real \<Rightarrow> nat \<Rightarrow> real" where
  "bR p a e shk j = a - WageRte p * shk + cR p e shk j + WageRte p * shk * LR p e shk j"

text \<open>
  A well-posed problem: positive labor cost and wage; risk aversion above
  \<open>LbrCost / (1 + LbrCost)\<close>; a non-empty, increasing, positive asset
  grid; at least two shocks, increasing, none negative; and end-of-period marginal values
  \<open>es\<close> that are finite, positive and non-increasing along the asset grid. Valid inputs,
  defined below on the arguments alone, give a well-posed problem.
\<close>

definition well_posed :: "solver_args \<Rightarrow> real list \<Rightarrow> bool" where
  "well_posed p es \<longleftrightarrow>
     0 < LbrCost p \<and> 0 < WageRte p \<and> LbrCost p / (1 + LbrCost p) < CRRA p
     \<and> aXtraGrid p \<noteq> [] \<and> sorted_wrt (<) (aXtraGrid p) \<and> 0 < hd (aXtraGrid p)
     \<and> 2 \<le> length (TranShkGrid p) \<and> sorted_wrt (<) (TranShkGrid p) \<and> 0 \<le> hd (TranShkGrid p)
     \<and> EndOfPrdvP_temp p = map Fin es \<and> sorted (rev es) \<and> 0 < last es"

text \<open>
  The columns the interpolants of shock \<open>j\<close> are built on, extra point first: balances less
  the lowest one, consumption, labor and pseudo-inverse marginal value.
\<close>

definition xcolR :: "solver_args \<Rightarrow> real list \<Rightarrow> nat \<Rightarrow> real list" where
  "xcolR p es j =
     0 # map (\<lambda>i. bR p (aXtraGrid p ! i) (es ! i) (TranShkGrid p ! j) j
                  + WageRte p * TranShkGrid p ! j) [0 ..< aXtraCount p]"

definition ccolR :: "solver_args \<Rightarrow> real list \<Rightarrow> nat \<Rightarrow> real list" where
  "ccolR p es j = 0 # map (\<lambda>i. cR p (es ! i) (TranShkGrid p ! j) j) [0 ..< aXtraCount p]"

definition lcolR :: "solver_args \<Rightarrow> real list \<Rightarrow> nat \<Rightarrow> real list" where
  "lcolR p es j =
     (if j = 0 then 0 else 1)
       # map (\<lambda>i. 1 - LR p (es ! i) (TranShkGrid p ! j) j) [0 ..< aXtraCount p]"

definition vcolR :: "solver_args \<Rightarrow> real list \<Rightarrow> nat \<Rightarrow> real list" where
  "vcolR p es j = 0 # map (\<lambda>i. uR p (es ! i)) [0 ..< aXtraCount p]"

text \<open>
  The minimum balance at a shock, and the value at \<open>(b, shk)\<close> of a function interpolated over
  balances in each column and then across the two columns around the shock.
\<close>

definition bminR :: "solver_args \<Rightarrow> real \<Rightarrow> real" where
  "bminR p shk = lin (TranShkGrid p) (map (\<lambda>t. - (WageRte p * t)) (TranShkGrid p)) shk"

definition surf :: "solver_args \<Rightarrow> real list \<Rightarrow> (nat \<Rightarrow> real list) \<Rightarrow> real \<Rightarrow> real \<Rightarrow> real" where
  "surf p es ycol b shk =
     (let x = b - bminR p shk;
          j = rseg (TranShkGrid p) shk;
          w = (shk - TranShkGrid p ! (j - 1)) / (TranShkGrid p ! j - TranShkGrid p ! (j - 1))
      in (1 - w) * lin (xcolR p es (j - 1)) (ycol (j - 1)) x
           + w * lin (xcolR p es j) (ycol j) x)"

text \<open>
  Valid inputs, stated on the arguments of the solver: positive labor cost, wage, interest
  factor, growth factor, discount factor and survival probability; risk aversion above
  \<open>LbrCost / (1 + LbrCost)\<close>, which the test of the solver, made on floats, does not quite
  ensure; a non-empty, increasing,
  positive asset grid; at least two grid shocks, increasing, none negative; probabilities
  that are non-negative and add up to 1; positive permanent shocks; and a marginal value
  function of the next period that is, at every positive balance and every transitory shock
  of the distribution, the finite and positive number \<open>v b shk\<close>, non-increasing in the
  balance.
\<close>

definition valid_inputs :: "solver_args \<Rightarrow> (real \<Rightarrow> real \<Rightarrow> real) \<Rightarrow> bool" where
  "valid_inputs p v \<longleftrightarrow>
     0 < LbrCost p \<and> 0 < WageRte p \<and> LbrCost p / (1 + LbrCost p) < CRRA p
     \<and> 0 < Rfree p \<and> 0 < PermGroFac p
     \<and> 0 < DiscFac p \<and> 0 < LivPrb p
     \<and> aXtraGrid p \<noteq> [] \<and> sorted_wrt (<) (aXtraGrid p) \<and> 0 < hd (aXtraGrid p)
     \<and> 2 \<le> length (TranShkGrid p) \<and> sorted_wrt (<) (TranShkGrid p) \<and> 0 \<le> hd (TranShkGrid p)
     \<and> list_all (\<lambda>q. 0 \<le> q) (fst (TranShkDstn p)) \<and> sum_list (fst (TranShkDstn p)) = 1
     \<and> list_all (\<lambda>q. 0 \<le> q) (fst (PermShkDstn p)) \<and> sum_list (fst (PermShkDstn p)) = 1
     \<and> list_all (\<lambda>s. 0 < s) (snd (PermShkDstn p))
     \<and> (\<forall>b shk. 0 < b \<and> shk \<in> set (snd (TranShkDstn p)) \<longrightarrow>
            eval2 (vPfunc_next p) (Fin b) (Fin shk) = Fin (v b shk) \<and> 0 < v b shk)
     \<and> (\<forall>b b' shk. 0 < b \<and> b \<le> b' \<longrightarrow> v b' shk \<le> v b shk)"

text \<open>
  What the solver computes from valid inputs before the end-of-period marginal values: the
  expected marginal value at asset level \<open>i\<close>, the nodes and values of the interpolant
  \<^verbatim>\<open>vPbarNvrsFuncNext\<close>, the balance at asset level \<open>i\<close> and permanent shock \<open>x\<close>, the
  term of that shock in the expectation, and the end-of-period marginal values.
\<close>

definition vbarR :: "solver_args \<Rightarrow> (real \<Rightarrow> real \<Rightarrow> real) \<Rightarrow> nat \<Rightarrow> real" where
  "vbarR p v i =
     sum_list (map2 (*) (map (v (Rfree p * aXtraGrid p ! i)) (snd (TranShkDstn p)))
       (fst (TranShkDstn p)))"

definition bgridR :: "solver_args \<Rightarrow> real list" where
  "bgridR p = 0 # map (\<lambda>a. Rfree p * a) (aXtraGrid p)"

definition ugridR :: "solver_args \<Rightarrow> (real \<Rightarrow> real \<Rightarrow> real) \<Rightarrow> real list" where
  "ugridR p v = 0 # map (\<lambda>i. uR p (vbarR p v i)) [0 ..< aXtraCount p]"

definition bpermR :: "solver_args \<Rightarrow> nat \<Rightarrow> real \<Rightarrow> real" where
  "bpermR p i x = Rfree p / (PermGroFac p * x) * aXtraGrid p ! i"

definition esterm :: "solver_args \<Rightarrow> (real \<Rightarrow> real \<Rightarrow> real) \<Rightarrow> nat \<Rightarrow> real \<Rightarrow> real" where
  "esterm p v i x =
     (PermGroFac p * x) powr (- CRRA p)
       * lin (bgridR p) (ugridR p v) (bpermR p i x) powr (- CRRA p)"

definition esR :: "solver_args \<Rightarrow> (real \<Rightarrow> real \<Rightarrow> real) \<Rightarrow> real list" where
  "esR p v =
     map (\<lambda>i. DiscFac p * Rfree p * LivPrb p
            * sum_list (map2 (*) (map (esterm p v i) (snd (PermShkDstn p)))
                (fst (PermShkDstn p))))
       [0 ..< aXtraCount p]"

text \<open>
  The terminal solver in real numbers. Bilinear interpolation over real grids, the segments
  chosen as \<open>segment\<close> chooses them; valid inputs of the terminal solver: positive labor
  cost and wage, a non-empty, increasing, positive asset grid, and at least two shocks,
  increasing, none negative; the balance grid; and leisure, labor and consumption at the node
  \<open>(i, j)\<close>. With a shock of 0 the formula of leisure divides by zero and gives 1.
\<close>

definition bilinR :: "(nat \<Rightarrow> nat \<Rightarrow> real) \<Rightarrow> real list \<Rightarrow> real list \<Rightarrow> real \<Rightarrow> real \<Rightarrow> real" where
  "bilinR r xs ys x y =
     (let i = rseg xs x; j = rseg ys y;
          wx = (x - xs ! (i - 1)) / (xs ! i - xs ! (i - 1));
          wy = (y - ys ! (j - 1)) / (ys ! j - ys ! (j - 1))
      in (1 - wx) * ((1 - wy) * r (i - 1) (j - 1) + wy * r (i - 1) j)
           + wx * ((1 - wy) * r i (j - 1) + wy * r i j))"

definition valid_terminal :: "real \<Rightarrow> real \<Rightarrow> real list \<Rightarrow> real list \<Rightarrow> bool" where
  "valid_terminal al w ax g \<longleftrightarrow>
     0 < al \<and> 0 < w \<and> ax \<noteq> [] \<and> sorted_wrt (<) ax \<and> 0 < hd ax
     \<and> 2 \<le> length g \<and> sorted_wrt (<) g \<and> 0 \<le> hd g"

definition bgridT :: "real list \<Rightarrow> real list" where
  "bgridT ax = 0 # ax"

definition LsrTR :: "real \<Rightarrow> real \<Rightarrow> real list \<Rightarrow> real list \<Rightarrow> nat \<Rightarrow> nat \<Rightarrow> real" where
  "LsrTR al w ax g i j =
     (if (i = 0 \<and> j = 0) \<or> g ! j = 0 then 1
      else min (al / (1 + al) * (bgridT ax ! i / (w * g ! j) + 1)) 1)"

definition LbrTR :: "real \<Rightarrow> real \<Rightarrow> real list \<Rightarrow> real list \<Rightarrow> nat \<Rightarrow> nat \<Rightarrow> real" where
  "LbrTR al w ax g i j = 1 - LsrTR al w ax g i j"

definition cTR :: "real \<Rightarrow> real \<Rightarrow> real list \<Rightarrow> real list \<Rightarrow> nat \<Rightarrow> nat \<Rightarrow> real" where
  "cTR al w ax g i j = bgridT ax ! i + LbrTR al w ax g i j * w * g ! j"

text \<open>
  Effective consumption, marginal value and pseudo-inverse marginal value at the node
  \<open>(i, j)\<close> of the terminal solver. Where effective consumption is 0 the marginal value is
  infinite and its pseudo-inverse is 0.
\<close>

definition xEffTR :: "real \<Rightarrow> real \<Rightarrow> real list \<Rightarrow> real list \<Rightarrow> nat \<Rightarrow> nat \<Rightarrow> real" where
  "xEffTR al w ax g i j = LsrTR al w ax g i j powr al * cTR al w ax g i j"

definition vPTR :: "real \<Rightarrow> real \<Rightarrow> real \<Rightarrow> real list \<Rightarrow> real list \<Rightarrow> nat \<Rightarrow> nat \<Rightarrow> real" where
  "vPTR rho al w ax g i j = LsrTR al w ax g i j powr al * xEffTR al w ax g i j powr (- rho)"

definition vPnvrsTR :: "real \<Rightarrow> real \<Rightarrow> real \<Rightarrow> real list \<Rightarrow> real list \<Rightarrow> nat \<Rightarrow> nat \<Rightarrow> real" where
  "vPnvrsTR rho al w ax g i j =
     (if xEffTR al w ax g i j = 0 then 0 else vPTR rho al w ax g i j powr (- 1 / rho))"

section \<open>Entries of the arrays\<close>

lemma shape_tile_cols: "shape (tile_cols v m) (length v) m"
  by (simp add: shape_def tile_cols_def)

lemma shape_tile_rows: "shape (tile_rows v n) n (length v)"
  by (simp add: shape_def tile_rows_def)

lemma shape_amap: "shape A n m \<Longrightarrow> shape (amap f A) n m"
  by (simp add: shape_def amap_def)

lemma shape_amap2: "shape A n m \<Longrightarrow> shape B n m \<Longrightarrow> shape (amap2 f A B) n m"
  by (simp add: shape_def amap2_def)

lemma entry_tile_cols: "i < length v \<Longrightarrow> j < m \<Longrightarrow> entry (tile_cols v m) i j = v ! i"
  by (simp add: entry_def tile_cols_def)

lemma entry_tile_rows: "i < n \<Longrightarrow> j < length v \<Longrightarrow> entry (tile_rows v n) i j = v ! j"
  by (simp add: entry_def tile_rows_def)

lemma entry_amap: "shape A n m \<Longrightarrow> i < n \<Longrightarrow> j < m \<Longrightarrow> entry (amap f A) i j = f (entry A i j)"
  by (simp add: shape_def entry_def amap_def)

lemma entry_amap2:
  "shape A n m \<Longrightarrow> shape B n m \<Longrightarrow> i < n \<Longrightarrow> j < m \<Longrightarrow>
   entry (amap2 f A B) i j = f (entry A i j) (entry B i j)"
  by (simp add: shape_def entry_def amap2_def)

lemma shape_set_column0: "shape A n m \<Longrightarrow> length v = n \<Longrightarrow> shape (set_column0 A v) n m"
  by (simp add: shape_def set_column0_def)

lemma entry_set_column0:
  "shape A n m \<Longrightarrow> length v = n \<Longrightarrow> i < n \<Longrightarrow> j < m \<Longrightarrow>
   entry (set_column0 A v) i j = (if j = 0 then v ! i else entry A i j)"
  by (auto simp add: shape_def entry_def set_column0_def)

lemma shape_masked_assign:
  "shape M n m \<Longrightarrow> shape A n m \<Longrightarrow> shape V n m \<Longrightarrow> shape (masked_assign M A V) n m"
  by (simp add: shape_def masked_assign_def)

lemma entry_masked_assign:
  "shape M n m \<Longrightarrow> shape A n m \<Longrightarrow> shape V n m \<Longrightarrow> i < n \<Longrightarrow> j < m \<Longrightarrow>
   entry (masked_assign M A V) i j = (if M ! i ! j then entry V i j else entry A i j)"
  by (simp add: shape_def entry_def masked_assign_def)

lemma solve_SomeD:
  assumes "solveConsLaborIntMarg p = Inr (Some s)"
  shows "s = solution_now p" "length (TranShkGrid p) = TranShkCount p"
    "0 < length (TranShkGrid p)" "fl (frac_float p * LbrCost p) < CRRA p" "fl (1 + LbrCost p) \<noteq> 0"
    "CRRA p \<noteq> 0" "BoroCnstArt p = None" "\<not> vFuncBool p" "\<not> CubicBool p"
    "length (TranShkVals p) = TranShkCount p" "length (PermShkVals p) = PermShkCount p"
  using assms by (auto simp add: solveConsLaborIntMarg_def split: if_splits)

lemma length_EndOfPrdvP_temp: "length (EndOfPrdvP_temp p) = aXtraCount p"
  by (simp add: EndOfPrdvP_temp_def amap2_def amap_def PermShkVals_rep_def PermShkPrbs_rep_def
      bNextPerm_def aNrmGrid_rep_def tile_rows_def tile_cols_def aXtraCount_def)

lemma length_TranShkScaleFac: "length (TranShkScaleFac p) = length (TranShkGrid p)"
  by (simp add: TranShkScaleFac_def)

lemma shape_xNowArray: "shape (xNowArray p) (aXtraCount p) (length (TranShkGrid p))"
  by (simp add: shape_def xNowArray_def amap_def EndOfPrdvP_def length_EndOfPrdvP_temp
      length_TranShkScaleFac)

lemma shape_TranShkGrid_rep: "shape (TranShkGrid_rep p) (aXtraCount p) (length (TranShkGrid p))"
  using shape_tile_rows [of "map Fin (TranShkGrid p)" "aXtraCount p"]
  by (simp add: TranShkGrid_rep_def)

lemma shape_xNowPowered: "shape (xNowPowered p) (aXtraCount p) (length (TranShkGrid p))"
  unfolding xNowPowered_def by (rule shape_amap [OF shape_xNowArray])

lemma shape_cNrmNow_foc: "shape (cNrmNow_foc p) (aXtraCount p) (length (TranShkGrid p))"
  unfolding cNrmNow_foc_def
  by (intro shape_amap2 shape_amap shape_TranShkGrid_rep shape_xNowPowered)

lemma shape_LsrNow_foc: "shape (LsrNow_foc p) (aXtraCount p) (length (TranShkGrid p))"
  unfolding LsrNow_foc_def
  by (intro shape_amap2 shape_amap shape_TranShkGrid_rep shape_xNowPowered)

lemma shape_cNrmNow_col0: "shape (cNrmNow_col0 p) (aXtraCount p) (length (TranShkGrid p))"
  unfolding cNrmNow_col0_def
  by (rule shape_set_column0 [OF shape_cNrmNow_foc]) (simp add: length_EndOfPrdvP_temp)

lemma shape_LsrNow_col0: "shape (LsrNow_col0 p) (aXtraCount p) (length (TranShkGrid p))"
  unfolding LsrNow_col0_def
  by (rule shape_set_column0 [OF shape_LsrNow_foc]) simp

lemma shape_violates:
  "shape (violates_labor_constraint p) (aXtraCount p) (length (TranShkGrid p))"
  using shape_LsrNow_col0 [of p] by (simp add: shape_def violates_labor_constraint_def)

lemma shape_EndOfPrdvP_tiled: "shape (EndOfPrdvP_tiled p) (aXtraCount p) (TranShkCount p)"
  using shape_tile_cols [of "EndOfPrdvP p" "TranShkCount p"]
  by (simp add: EndOfPrdvP_tiled_def EndOfPrdvP_def length_EndOfPrdvP_temp)

lemma shape_cNrmNow:
  "length (TranShkGrid p) = TranShkCount p \<Longrightarrow>
   shape (cNrmNow p) (aXtraCount p) (length (TranShkGrid p))"
  unfolding cNrmNow_def
  by (intro shape_masked_assign shape_violates shape_cNrmNow_col0 shape_amap)
     (simp add: shape_EndOfPrdvP_tiled)

lemma shape_LsrNow: "shape (LsrNow p) (aXtraCount p) (length (TranShkGrid p))"
  unfolding LsrNow_def
  apply (intro shape_masked_assign shape_violates shape_LsrNow_col0)
  using shape_LsrNow_col0 [of p] by (simp add: shape_def)

lemma shape_aNrmNow_rep: "shape (aNrmNow_rep p) (aXtraCount p) (length (TranShkGrid p))"
  using shape_tile_cols [of "map Fin (aXtraGrid p)" "length (TranShkGrid p)"]
  by (simp add: aNrmNow_rep_def aXtraCount_def)

lemma shape_bNrmNow:
  "length (TranShkGrid p) = TranShkCount p \<Longrightarrow>
   shape (bNrmNow p) (aXtraCount p) (length (TranShkGrid p))"
  unfolding bNrmNow_def
  by (intro shape_amap2 shape_amap shape_aNrmNow_rep shape_TranShkGrid_rep shape_cNrmNow
      shape_LsrNow)

lemma entry_bNrmNow:
  assumes "length (TranShkGrid p) = TranShkCount p" "i < aXtraCount p" "j < length (TranShkGrid p)"
  shows "entry (bNrmNow p) i j =
     Fin (aXtraGrid p ! i) - Fin (WageRte p) * Fin (TranShkGrid p ! j) + entry (cNrmNow p) i j
       + Fin (WageRte p) * Fin (TranShkGrid p ! j) * entry (LsrNow p) i j"
proof -
  let ?n = "aXtraCount p" and ?m = "length (TranShkGrid p)"
  let ?W = "amap (\<lambda>shk. Fin (WageRte p) * shk) (TranShkGrid_rep p)"
  have W: "shape ?W ?n ?m" by (intro shape_amap shape_TranShkGrid_rep)
  have eW: "entry ?W i j = Fin (WageRte p) * Fin (TranShkGrid p ! j)"
    using assms(2,3)
    by (subst entry_amap [OF shape_TranShkGrid_rep]) (simp_all add: TranShkGrid_rep_def entry_tile_rows)
  have ea: "entry (aNrmNow_rep p) i j = Fin (aXtraGrid p ! i)"
    using assms(2,3) by (simp add: aNrmNow_rep_def entry_tile_cols aXtraCount_def)
  have s1: "shape (amap2 (-) (aNrmNow_rep p) ?W) ?n ?m"
    by (intro shape_amap2 shape_aNrmNow_rep W)
  have s2: "shape (amap2 (+) (amap2 (-) (aNrmNow_rep p) ?W) (cNrmNow p)) ?n ?m"
    by (intro shape_amap2 s1 shape_cNrmNow assms)
  have s3: "shape (amap2 (*) ?W (LsrNow p)) ?n ?m"
    by (intro shape_amap2 W shape_LsrNow)
  show ?thesis
    unfolding bNrmNow_def
    using assms(2,3)
    by (simp add: entry_amap2 [OF s2 s3] entry_amap2 [OF s1 shape_cNrmNow [OF assms(1)]]
        entry_amap2 [OF shape_aNrmNow_rep W] entry_amap2 [OF W shape_LsrNow] eW ea)
qed

section \<open>The arrays of the worked example\<close>

text \<open>Rounding to a float, evaluated: the search for the exponent is unrolled.\<close>

lemma expo_up_numeral:
  "expo_up (numeral k) x = (if x < 2 then 0 else 1 + expo_up (pred_numeral k) (x / 2))"
  by (simp add: numeral_eq_Suc)

lemma expo_down_numeral:
  "expo_down (numeral k) x = (if 1 \<le> x then 0 else expo_down (pred_numeral k) (2 * x) - 1)"
  by (simp add: numeral_eq_Suc)

lemmas fl_eval = fl_def float_exponent_def two_to_def round_half_even_def Let_def
  expo_up_numeral expo_down_numeral

lemma fl_zero [simp]: "fl 0 = 0"
  by (simp add: fl_def round_half_even_def)

lemma fl_small [simp]: "fl 1 = 1" "fl 2 = 2" "fl (1/2) = 1/2" "fl (- (1/2)) = - (1/2)"
  by (simp_all add: fl_eval)

lemma sq_powr_half: "0 \<le> r \<Longrightarrow> (r * r) powr (1/2) = (r::real)"
  by (simp add: powr_half_sqrt)

lemma powr_halves [simp]:
  "(4::real) powr (1/2) = 2" "(9::real) powr (1/2) = 3" "(81::real) powr (1/2) = 9"
  "(36::real) powr (1/2) = 6" "(1/4::real) powr (1/2) = 1/2" "(1/9::real) powr (1/2) = 1/3"
  using sq_powr_half [of 2] sq_powr_half [of 3] sq_powr_half [of 9] sq_powr_half [of 6]
    sq_powr_half [of "1/2"] sq_powr_half [of "1/3"]
  by simp_all

lemma powr_m2 [simp]: "0 < x \<Longrightarrow> x powr (-2) = 1 / (x * x)" for x :: real
  using powr_neg_numeral [of x "Num.Bit0 Num.One"] by (simp add: power2_eq_square)

lemma ex_fields [simp]:
  "solution_next example_args = example_next" "PermShkDstn example_args = ([1], [1])"
  "TranShkDstn example_args = ([1/2, 1/2], [4, 9])" "LivPrb example_args = 1"
  "DiscFac example_args = 1" "CRRA example_args = 1" "Rfree example_args = 1"
  "PermGroFac example_args = 1" "BoroCnstArt example_args = None"
  "aXtraGrid example_args = [1, 18]" "TranShkGrid example_args = [4, 9]"
  "vFuncBool example_args = False" "CubicBool example_args = False"
  "WageRte example_args = 1" "LbrCost example_args = 1"
  by (simp_all add: example_args_def)

lemma ex_frac [simp]: "frac example_args = 1/2"
  by (simp add: frac_def)

lemma ex_counts [simp]: "TranShkCount example_args = 2" "PermShkCount example_args = 1"
  "aXtraCount example_args = 2"
  by (simp_all add: TranShkCount_def PermShkCount_def aXtraCount_def TranShkPrbs_def PermShkPrbs_def)

lemma ex_bNext: "bNext example_args = [[Fin 1, Fin 1], [Fin 18, Fin 18]]"
  by (simp add: bNext_def bNrmGrid_rep_def tile_cols_def amap_def numeral_2_eq_2)

lemma seg49 [simp]: "segment [Fin 4, Fin 9] (Fin 4) = 1" "segment [Fin 4, Fin 9] (Fin 9) = 1"
  by (simp_all add: segment_def)

lemma ex_vPNext: "vPNext example_args = [[Fin 1, Fin 1], [Fin (1/18), Fin (1/18)]]"
  by (simp add: vPNext_def ex_bNext TranShkVals_rep_def TranShkVals_def tile_rows_def amap2_def
      vPfunc_next_def example_next_def interp_on_interp_def weight_def blend_def interp1_def
      segment_def CRRAutilityP_def minus_npf_def real_pow_def numeral_2_eq_2)

lemma ex_vPbarNvrsNext: "vPbarNvrsNext example_args = [Fin 1, Fin 18]"
  by (simp add: vPbarNvrsNext_def vPbarNext_def ex_vPNext TranShkPrbs_rep_def TranShkPrbs_def
      tile_rows_def amap2_def np_sum_def uPinv_def CRRAutilityP_inv_def real_pow_def numeral_2_eq_2)

lemma ex_EndOfPrdvP_temp: "EndOfPrdvP_temp example_args = [Fin 1, Fin (1/18)]"
  by (simp add: EndOfPrdvP_temp_def PermShkVals_rep_def PermShkVals_def PermShkPrbs_rep_def
      PermShkPrbs_def bNextPerm_def aNrmGrid_rep_def tile_rows_def tile_cols_def amap2_def amap_def
      vPbarFuncNext_def vPbarNvrsFuncNext_def ex_bNext ex_vPbarNvrsNext column_def
      interp1_def segment_def weight_def blend_def minus_npf_def CRRAutilityP_def np_sum_def
      real_pow_def numeral_2_eq_2)

lemma ex_TranShkScaleFac: "TranShkScaleFac example_args = [Fin 2, Fin 3]"
  by (simp add: TranShkScaleFac_def py_pow_def real_pow_def)

lemma ex_xNowArray: "xNowArray example_args = [[Fin (1/4), Fin (1/9)], [Fin 81, Fin 36]]"
  by (simp add: xNowArray_def EndOfPrdvP_def ex_EndOfPrdvP_temp ex_TranShkScaleFac amap_def
      real_pow_def)

lemma ex_xNowPowered: "xNowPowered example_args = [[Fin (1/2), Fin (1/3)], [Fin 9, Fin 6]]"
  by (simp add: xNowPowered_def ex_xNowArray amap_def real_pow_def)

lemma ex_TranShkGrid_rep: "TranShkGrid_rep example_args = [[Fin 4, Fin 9], [Fin 4, Fin 9]]"
  by (simp add: TranShkGrid_rep_def tile_rows_def numeral_2_eq_2)

lemma ex_cNrmNow_foc: "cNrmNow_foc example_args = [[Fin 1, Fin 1], [Fin 18, Fin 18]]"
  by (simp add: cNrmNow_foc_def ex_xNowPowered ex_TranShkGrid_rep amap_def amap2_def real_pow_def)

lemma ex_LsrNow_foc: "LsrNow_foc example_args = [[Fin (1/4), Fin (1/9)], [Fin (9/2), Fin 2]]"
  by (simp add: LsrNow_foc_def ex_xNowPowered ex_TranShkGrid_rep amap_def amap2_def real_pow_def)

lemma ex_LsrNow: "LsrNow example_args = [[Fin 1, Fin (1/9)], [Fin 1, Fin 1]]"
  by (simp add: LsrNow_def LsrNow_col0_def violates_labor_constraint_def ex_LsrNow_foc
      set_column0_def masked_assign_def numeral_2_eq_2)

lemma ex_cNrmNow: "cNrmNow example_args = [[Fin 1, Fin 1], [Fin 18, Fin 18]]"
  by (simp add: cNrmNow_def cNrmNow_col0_def LsrNow_col0_def violates_labor_constraint_def
      ex_LsrNow_foc ex_cNrmNow_foc ex_EndOfPrdvP_temp EndOfPrdvP_tiled_def EndOfPrdvP_def
      tile_cols_def amap_def uPinv_def CRRAutilityP_inv_def real_pow_def
      set_column0_def masked_assign_def numeral_2_eq_2)

lemma ex_bNrmNow: "bNrmNow example_args = [[Fin 2, Fin (-6)], [Fin 36, Fin 36]]"
  by (simp add: bNrmNow_def ex_cNrmNow ex_LsrNow ex_TranShkGrid_rep aNrmNow_rep_def tile_cols_def
      amap_def amap2_def minus_npf_def numeral_2_eq_2)

lemma ex_args_next: "example_args\<lparr>solution_next := example_next\<rparr> = example_args"
  by (simp add: example_args_def)

lemma ex_frac_float [simp]: "frac_float example_args = 1/2"
  by (simp add: frac_float_def)

lemma ex_solve: "solveConsLaborIntMarg example_args = Inr (Some (solution_now example_args))"
  by (simp add: solveConsLaborIntMarg_def example_next_def TranShkVals_def PermShkVals_def
      py_pow_raises_def)

lemma entry_Cons_Suc: "entry (r # A) (Suc i) j = entry A i j"
  by (simp add: entry_def)

lemma entry_set_entry00_Suc: "entry (set_entry00 (r # A) x) (Suc i) j = entry A i j"
  by (simp add: entry_def set_entry00_def)

lemma entry_set_entry00_0: "0 < length r \<Longrightarrow> entry (set_entry00 (r # A) x) 0 0 = x"
  by (simp add: entry_def set_entry00_def)

lemma entry_cNrmNow:
  assumes "length (TranShkGrid p) = TranShkCount p" "i < aXtraCount p" "j < length (TranShkGrid p)"
  shows "entry (cNrmNow p) i j =
     (if Fin 1 < entry (LsrNow_col0 p) i j then uPinv p (EndOfPrdvP_temp p ! i)
      else entry (cNrmNow_col0 p) i j)"
proof -
  have V: "shape (amap (uPinv p) (EndOfPrdvP_tiled p)) (aXtraCount p) (length (TranShkGrid p))"
    using shape_amap [OF shape_EndOfPrdvP_tiled, of "uPinv p" p] assms(1) by simp
  have j': "j < TranShkCount p" using assms by simp
  have eV: "entry (amap (uPinv p) (EndOfPrdvP_tiled p)) i j = uPinv p (EndOfPrdvP_temp p ! i)"
    using assms(2) j'
    by (subst entry_amap [OF shape_EndOfPrdvP_tiled])
       (simp_all add: EndOfPrdvP_tiled_def EndOfPrdvP_def entry_tile_cols length_EndOfPrdvP_temp)
  have eM: "violates_labor_constraint p ! i ! j = (Fin 1 < entry (LsrNow_col0 p) i j)"
    using shape_LsrNow_col0 [of p] assms(2,3)
    by (simp add: violates_labor_constraint_def shape_def entry_def)
  show ?thesis
    unfolding cNrmNow_def
    using assms(2,3)
    by (simp add: entry_masked_assign [OF shape_violates shape_cNrmNow_col0 V] eV eM)
qed

lemma entry_LsrNow:
  assumes "i < aXtraCount p" "j < length (TranShkGrid p)"
  shows "entry (LsrNow p) i j =
     (if Fin 1 < entry (LsrNow_col0 p) i j then Fin 1 else entry (LsrNow_col0 p) i j)"
proof -
  have V: "shape (map (map (\<lambda>z. Fin 1)) (LsrNow_col0 p)) (aXtraCount p) (length (TranShkGrid p))"
    using shape_LsrNow_col0 [of p] by (simp add: shape_def)
  have eV: "entry (map (map (\<lambda>z. Fin 1)) (LsrNow_col0 p)) i j = Fin 1"
    using shape_LsrNow_col0 [of p] assms by (simp add: shape_def entry_def)
  have eM: "violates_labor_constraint p ! i ! j = (Fin 1 < entry (LsrNow_col0 p) i j)"
    using shape_LsrNow_col0 [of p] assms
    by (simp add: violates_labor_constraint_def shape_def entry_def)
  show ?thesis
    unfolding LsrNow_def
    using assms
    by (simp add: entry_masked_assign [OF shape_violates shape_LsrNow_col0 V] eV eM)
qed

lemma entry_LsrNow_col0:
  assumes "i < aXtraCount p" "j < length (TranShkGrid p)"
  shows "entry (LsrNow_col0 p) i j = (if j = 0 then Fin 1 else entry (LsrNow_foc p) i j)"
  unfolding LsrNow_col0_def using assms
  by (simp add: entry_set_column0 [OF shape_LsrNow_foc])

lemma entry_cNrmNow_col0:
  assumes "i < aXtraCount p" "j < length (TranShkGrid p)"
  shows "entry (cNrmNow_col0 p) i j =
    (if j = 0 then uPinv p (EndOfPrdvP_temp p ! i) else entry (cNrmNow_foc p) i j)"
  unfolding cNrmNow_col0_def using assms
  by (simp add: entry_set_column0 [OF shape_cNrmNow_foc] length_EndOfPrdvP_temp)

section \<open>What the solver reads of the next solution\<close>

lemma uPinv_solution_next [simp]: "uPinv (p\<lparr>solution_next := s\<rparr>) = uPinv p"
  by (simp add: fun_eq_iff uPinv_def)

lemma vPNext_cong:
  "vPfunc s1 = vPfunc s2 \<Longrightarrow>
   vPNext (p\<lparr>solution_next := s1\<rparr>) = vPNext (p\<lparr>solution_next := s2\<rparr>)"
  by (simp add: vPNext_def vPfunc_next_def bNext_def bNrmGrid_rep_def TranShkVals_rep_def
      TranShkVals_def TranShkCount_def TranShkPrbs_def aXtraCount_def)

lemma EndOfPrdvP_temp_cong:
  "vPfunc s1 = vPfunc s2 \<Longrightarrow>
   EndOfPrdvP_temp (p\<lparr>solution_next := s1\<rparr>) = EndOfPrdvP_temp (p\<lparr>solution_next := s2\<rparr>)"
  using vPNext_cong [of s1 s2 p]
  by (simp add: EndOfPrdvP_temp_def PermShkVals_rep_def PermShkVals_def PermShkPrbs_rep_def
      PermShkPrbs_def bNextPerm_def aNrmGrid_rep_def PermShkCount_def aXtraCount_def
      vPbarFuncNext_def vPbarNvrsFuncNext_def vPbarNvrsNext_def vPbarNext_def uPinv_def
      TranShkPrbs_rep_def TranShkPrbs_def bNext_def bNrmGrid_rep_def TranShkCount_def)

lemma solution_now_cong:
  "vPfunc s1 = vPfunc s2 \<Longrightarrow>
   solution_now (p\<lparr>solution_next := s1\<rparr>) = solution_now (p\<lparr>solution_next := s2\<rparr>)"
  using EndOfPrdvP_temp_cong [of s1 s2 p]
  by (simp add: solution_now_def cFuncNow_def LbrFuncNow_def vPfuncNow_def vPnvrsFuncNow_def
      cFuncNowBase_def LbrFuncNowBase_def vPnvrsFuncNowBase_def cFuncNow_list_def
      LbrFuncNow_list_def vPnvrsFuncNow_list_def bNrmNow_temp_def bNrmMinNow_def
      bNowArray_def cNowArray_def LsrNowArray_def LbrNowArray_def vPnvrsNowArray_def vPnvrsNow_def
      zeros_row_def bNowExtra_def bNrmNow_def aNrmNow_rep_def cNrmNow_def LsrNow_def
      violates_labor_constraint_def EndOfPrdvP_tiled_def cNrmNow_col0_def LsrNow_col0_def
      cNrmNow_foc_def LsrNow_foc_def xNowPowered_def TranShkGrid_rep_def xNowArray_def
      EndOfPrdvP_def TranShkScaleFac_def frac_def uPinv_def aXtraCount_def TranShkCount_def
      TranShkPrbs_def)

lemma solve_cong:
  "vPfunc s1 = vPfunc s2 \<Longrightarrow>
   solveConsLaborIntMarg (p\<lparr>solution_next := s1\<rparr>)
     = solveConsLaborIntMarg (p\<lparr>solution_next := s2\<rparr>)"
  using solution_now_cong [of s1 s2 p]
  by (simp add: solveConsLaborIntMarg_def frac_float_def TranShkVals_def TranShkCount_def
      TranShkPrbs_def PermShkVals_def PermShkCount_def PermShkPrbs_def)

text \<open>
  The body on the store: it leaves the store it was given as it was and adds four objects,
  the three arrays it assigned into and the solution, which is the one \<open>solution_now\<close>
  describes.
\<close>

lemma functions_from_now:
  "functions_from p (cNrmNow p) (LsrNow p) (LsrNowArray p)
     = (cFuncNow p, LbrFuncNow p, vPfuncNow p, bNrmMinNow p)"
  by (simp add: functions_from_def Let_def cFuncNow_def LbrFuncNow_def vPfuncNow_def
      vPnvrsFuncNow_def cFuncNowBase_def LbrFuncNowBase_def vPnvrsFuncNowBase_def cFuncNow_list_def
      LbrFuncNow_list_def vPnvrsFuncNow_list_def bNrmNow_temp_def bNrmMinNow_def
      bNowArray_def cNowArray_def LbrNowArray_def bNrmNow_def)

lemma init_store:
  "ConsumerLaborSolution_init h (Some c) (Some l) None (Some vp) (Some bm)
     = (h @ [Sol \<lparr>cFunc = Some c, LbrFunc = Some l, vFunc = None, vPfunc = Some vp,
                  bNrmMin = Some bm\<rparr>], length h)"
  by (simp add: ConsumerLaborSolution_init_def new_def setattr_def Let_def)

lemma solver_body_store:
  "solver_body p h
     = (h @ [Arr (cNrmNow p), Arr (LsrNow p), Arr (LsrNowArray p), Sol (solution_now p)],
        length h + 3)"
  by (simp add: solver_body_def new_def update_arr_def Let_def nth_append init_store
      list_update_append functions_from_now [unfolded cNrmNow_def LsrNow_def LsrNowArray_def
        violates_labor_constraint_def cNrmNow_col0_def LsrNow_col0_def]
      cNrmNow_def LsrNow_def LsrNowArray_def violates_labor_constraint_def cNrmNow_col0_def
      LsrNow_col0_def solution_now_def)

section \<open>Entries of the terminal arrays\<close>

lemma pick_Inr: "pick tf xs = Inr x \<Longrightarrow> xs \<noteq> [] \<and> x = (if tf then last xs else hd xs)"
  by (auto simp add: pick_def split: if_splits)

lemma shape_bNrmGridTerm: "shape (bNrmGridTerm ax g) (Suc (length ax)) (length g)"
  using shape_tile_cols [of "bNrmGrid_term ax" "length g"]
  by (simp add: bNrmGridTerm_def bNrmGrid_term_def)

lemma shape_TranShkGridTerm: "shape (TranShkGridTerm ax g) (Suc (length ax)) (length g)"
  using shape_tile_rows [of "map Fin g" "length (bNrmGrid_term ax)"]
  by (simp add: TranShkGridTerm_def bNrmGrid_term_def)

lemma entry_bNrmGridTerm:
  "i \<le> length ax \<Longrightarrow> j < length g \<Longrightarrow> entry (bNrmGridTerm ax g) i j = bNrmGrid_term ax ! i"
  by (simp add: bNrmGridTerm_def entry_tile_cols bNrmGrid_term_def)

lemma entry_TranShkGridTerm:
  "i \<le> length ax \<Longrightarrow> j < length g \<Longrightarrow> entry (TranShkGridTerm ax g) i j = Fin (g ! j)"
  by (simp add: TranShkGridTerm_def entry_tile_rows bNrmGrid_term_def)

lemma shape_set_entry00: "shape A n m \<Longrightarrow> shape (set_entry00 A x) n m"
  by (auto simp add: shape_def set_entry00_def nth_list_update)

lemma entry_set_entry00:
  "shape A n m \<Longrightarrow> i < n \<Longrightarrow> j < m \<Longrightarrow>
   entry (set_entry00 A x) i j = (if i = 0 \<and> j = 0 then x else entry A i j)"
  by (auto simp add: shape_def entry_def set_entry00_def nth_list_update)

lemma shape_LsrTerm: "shape (LsrTerm al w ax g) (Suc (length ax)) (length g)"
  unfolding LsrTerm_def
  by (intro shape_set_entry00 shape_amap2 shape_bNrmGridTerm shape_TranShkGridTerm)

lemma entry_LsrTerm:
  assumes "i \<le> length ax" "j < length g"
  shows "entry (LsrTerm al w ax g) i j =
    (if i = 0 \<and> j = 0 then Fin 1
     else LsrTerm_formula al w (bNrmGrid_term ax ! i) (Fin (g ! j)))"
proof -
  have "shape (amap2 (LsrTerm_formula al w) (bNrmGridTerm ax g) (TranShkGridTerm ax g))
      (Suc (length ax)) (length g)"
    by (intro shape_amap2 shape_bNrmGridTerm shape_TranShkGridTerm)
  then show ?thesis
    unfolding LsrTerm_def using assms
    by (simp add: entry_set_entry00 entry_amap2 [OF shape_bNrmGridTerm shape_TranShkGridTerm]
        entry_bNrmGridTerm entry_TranShkGridTerm)
qed

lemma shape_LbrTerm: "shape (LbrTerm al w ax g) (Suc (length ax)) (length g)"
  unfolding LbrTerm_def by (intro shape_amap shape_LsrTerm)

lemma entry_LbrTerm:
  assumes "i \<le> length ax" "j < length g"
  shows "entry (LbrTerm al w ax g) i j = Fin 1 - entry (LsrTerm al w ax g) i j"
  unfolding LbrTerm_def using assms by (simp add: entry_amap [OF shape_LsrTerm])

lemma entry_cNrmTerm:
  assumes "i \<le> length ax" "j < length g"
  shows "entry (cNrmTerm al w ax g) i j =
    bNrmGrid_term ax ! i + entry (LbrTerm al w ax g) i j * Fin w * Fin (g ! j)"
proof -
  let ?L = "amap (\<lambda>l. l * Fin w) (LbrTerm al w ax g)"
  have L: "shape ?L (Suc (length ax)) (length g)"
    by (intro shape_amap shape_LbrTerm)
  have eL: "entry ?L i j = entry (LbrTerm al w ax g) i j * Fin w"
    using assms by (simp add: entry_amap [OF shape_LbrTerm])
  have P: "shape (amap2 (*) ?L (TranShkGridTerm ax g)) (Suc (length ax)) (length g)"
    by (intro shape_amap2 L shape_TranShkGridTerm)
  show ?thesis
    unfolding cNrmTerm_def using assms
    by (simp only: entry_amap2 [OF shape_bNrmGridTerm P] entry_amap2 [OF L shape_TranShkGridTerm]
        eL entry_bNrmGridTerm entry_TranShkGridTerm less_Suc_eq_le)
qed


section \<open>The functions of the worked example\<close>

lemma ex_bNowArray: "bNowArray example_args = [[Fin (-4), Fin (-9)], [Fin 2, Fin (-6)], [Fin 36, Fin 36]]"
  by (simp add: bNowArray_def bNowExtra_def ex_bNrmNow)

lemma ex_cNowArray: "cNowArray example_args = [[Fin 0, Fin 0], [Fin 1, Fin 1], [Fin 18, Fin 18]]"
  by (simp add: cNowArray_def zeros_row_def ex_cNrmNow numeral_2_eq_2)

lemma ex_LbrNowArray: "LbrNowArray example_args = [[Fin 0, Fin 1], [Fin 0, Fin (8/9)], [Fin 0, Fin 0]]"
  by (simp add: LbrNowArray_def LsrNowArray_def zeros_row_def ex_LsrNow set_entry00_def amap_def
      minus_npf_def numeral_2_eq_2)

lemma ex_vPnvrsNowArray:
  "vPnvrsNowArray example_args = [[Fin 0, Fin 0], [Fin 1, Fin 1], [Fin 18, Fin 18]]"
  by (simp add: vPnvrsNowArray_def vPnvrsNow_def zeros_row_def EndOfPrdvP_tiled_def EndOfPrdvP_def
      ex_EndOfPrdvP_temp tile_cols_def amap_def uPinv_def CRRAutilityP_inv_def real_pow_def
      numeral_2_eq_2)

lemma ex_bNrmNow_temp:
  "bNrmNow_temp example_args 0 = [Fin 0, Fin 6, Fin 40]"
  "bNrmNow_temp example_args (Suc 0) = [Fin 0, Fin 3, Fin 45]"
  by (simp_all add: bNrmNow_temp_def ex_bNowArray column_def entry_def minus_npf_def)

lemma ex_bNrmMinNow: "bNrmMinNow example_args = LinearInterp [Fin 4, Fin 9] [Fin (-4), Fin (-9)]"
  by (simp add: bNrmMinNow_def ex_bNowArray)

lemma upt2: "[0 ..< 2] = [0, Suc 0]"
  by (simp add: numeral_2_eq_2)

lemma ex_LbrFuncNow:
  "LbrFuncNow example_args =
     VariableLowerBoundFunc2D
       (LinearInterpOnInterp1D
          [LinearInterp [Fin 0, Fin 6, Fin 40] [Fin 0, Fin 0, Fin 0],
           LinearInterp [Fin 0, Fin 3, Fin 45] [Fin 1, Fin (8/9), Fin 0]]
          [Fin 4, Fin 9])
       (LinearInterp [Fin 4, Fin 9] [Fin (-4), Fin (-9)])"
  by (simp add: LbrFuncNow_def LbrFuncNowBase_def LbrFuncNow_list_def ex_bNrmMinNow upt2
      ex_bNrmNow_temp ex_LbrNowArray column_def)

lemma ex_cFuncNow:
  "cFuncNow example_args =
     VariableLowerBoundFunc2D
       (LinearInterpOnInterp1D
          [LinearInterp [Fin 0, Fin 6, Fin 40] [Fin 0, Fin 1, Fin 18],
           LinearInterp [Fin 0, Fin 3, Fin 45] [Fin 0, Fin 1, Fin 18]]
          [Fin 4, Fin 9])
       (LinearInterp [Fin 4, Fin 9] [Fin (-4), Fin (-9)])"
  by (simp add: cFuncNow_def cFuncNowBase_def cFuncNow_list_def ex_bNrmMinNow upt2
      ex_bNrmNow_temp ex_cNowArray column_def)

lemma ex_vPnvrsFuncNow:
  "vPnvrsFuncNow example_args =
     VariableLowerBoundFunc2D
       (LinearInterpOnInterp1D
          [LinearInterp [Fin 0, Fin 6, Fin 40] [Fin 0, Fin 1, Fin 18],
           LinearInterp [Fin 0, Fin 3, Fin 45] [Fin 0, Fin 1, Fin 18]]
          [Fin 4, Fin 9])
       (LinearInterp [Fin 4, Fin 9] [Fin (-4), Fin (-9)])"
  by (simp add: vPnvrsFuncNow_def vPnvrsFuncNowBase_def vPnvrsFuncNow_list_def ex_bNrmMinNow upt2
      ex_bNrmNow_temp ex_vPnvrsNowArray column_def)

lemmas interp_eval = interp_on_interp_def interp1_def segment_def weight_def blend_def
  minus_npf_def inf_of_sign_def

lemma ex_bmin9: "eval1 (bNrmMinNow example_args) (Fin 9) = Fin (-9)"
  by (simp add: ex_bNrmMinNow interp_eval)

lemma ex_bmin14: "eval1 (bNrmMinNow example_args) (Fin 14) = Fin (-14)"
  by (simp add: ex_bNrmMinNow interp_eval)

lemma ex_labor_78_9: "eval2 (LbrFuncNow example_args) (Fin 78) (Fin 9) = Fin (- 8/9)"
  by (simp add: ex_LbrFuncNow interp_eval)

lemma ex_labor_m11_14: "eval2 (LbrFuncNow example_args) (Fin (-11)) (Fin 14) = Fin (16/9)"
  by (simp add: ex_LbrFuncNow interp_eval)

lemma ex_vPnvrs_m6_9: "eval2 (vPnvrsFuncNow example_args) (Fin (-6)) (Fin 9) = Fin 1"
  by (simp add: ex_vPnvrsFuncNow interp_eval)

lemma ex_vPnvrs_36_9: "eval2 (vPnvrsFuncNow example_args) (Fin 36) (Fin 9) = Fin 18"
  by (simp add: ex_vPnvrsFuncNow interp_eval)

lemma ex_vP_m6_9: "eval2 (vPfuncNow example_args) (Fin (-6)) (Fin 9) = Fin 1"
  by (simp add: vPfuncNow_def ex_vPnvrs_m6_9 CRRAutilityP_def real_pow_def)

lemma ex_vP_36_9: "eval2 (vPfuncNow example_args) (Fin 36) (Fin 9) = Fin (1/18)"
  by (simp add: vPfuncNow_def ex_vPnvrs_36_9 CRRAutilityP_def real_pow_def)

section \<open>Interpolation on ordered grids, and the arrays of a well-posed problem\<close>

lemma filter_less_Fin: "filter (\<lambda>v. v < Fin x) (map Fin xs) = map Fin (filter (\<lambda>v. v < x) xs)"
  by (induction xs) simp_all

lemma segment_Fin: "segment (map Fin xs) (Fin x) = rseg xs x"
  by (simp add: segment_def rseg_def filter_less_Fin)

lemma count_below_sorted:
  "sorted xs \<Longrightarrow> t < length xs \<Longrightarrow>
   (t < length (filter (\<lambda>v. v < x) xs) \<longleftrightarrow> xs ! t < (x::real))"
proof (induction xs arbitrary: t)
  case Nil
  then show ?case by simp
next
  case (Cons a xs)
  have none: "filter (\<lambda>v. v < x) xs = []" if "\<not> a < x"
    using Cons.prems(1) that by (auto simp add: filter_empty_conv)
  show ?case
  proof (cases t)
    case 0
    then show ?thesis using none by auto
  next
    case (Suc t')
    have IH: "(t' < length (filter (\<lambda>v. v < x) xs)) = (xs ! t' < x)"
      using Cons Suc by simp
    have le: "a \<le> xs ! t'" using Cons.prems Suc by simp
    show ?thesis
    proof (cases "a < x")
      case True
      then show ?thesis using Suc IH by simp
    next
      case False
      then have "\<not> xs ! t' < x" using le by simp
      then show ?thesis using Suc False none by simp
    qed
  qed
qed

lemma rseg_bounds: "2 \<le> length xs \<Longrightarrow> 1 \<le> rseg xs x \<and> rseg xs x \<le> length xs - 1"
  unfolding rseg_def by linarith

lemma rseg_left:
  assumes "sorted xs" "2 \<le> length xs" "2 \<le> rseg xs x"
  shows "xs ! (rseg xs x - 1) < x"
proof -
  let ?k = "length (filter (\<lambda>v. v < x) xs)"
  have "rseg xs x \<le> ?k" using assms(3) unfolding rseg_def by linarith
  then have "rseg xs x - 1 < ?k" using assms(3) by linarith
  moreover have "rseg xs x - 1 < length xs" using rseg_bounds [OF assms(2), of x] by linarith
  ultimately show ?thesis using count_below_sorted [OF assms(1)] by blast
qed

lemma rseg_right:
  assumes "sorted xs" "2 \<le> length xs" "rseg xs x < length xs - 1"
  shows "x \<le> xs ! rseg xs x"
proof -
  let ?k = "length (filter (\<lambda>v. v < x) xs)"
  have "?k \<le> rseg xs x" using assms(2,3) unfolding rseg_def by linarith
  then have "\<not> rseg xs x < ?k" by simp
  moreover have "rseg xs x < length xs" using assms(3) by simp
  ultimately show ?thesis using count_below_sorted [OF assms(1), of "rseg xs x" x] by simp
qed

lemma count_below_mono:
  "x1 \<le> x2 \<Longrightarrow>
   length (filter (\<lambda>v. v < x1) xs) \<le> length (filter (\<lambda>v. v < (x2::real)) xs)"
  by (induction xs) auto

lemma rseg_mono: "x1 \<le> x2 \<Longrightarrow> rseg xs x1 \<le> rseg xs x2"
  using count_below_mono [of x1 x2 xs] unfolding rseg_def by linarith


lemma lin_affine:
  "lin xs ys x =
     ys ! (rseg xs x - 1)
       + (x - xs ! (rseg xs x - 1))
         * ((ys ! rseg xs x - ys ! (rseg xs x - 1)) / (xs ! rseg xs x - xs ! (rseg xs x - 1)))"
  by (simp add: lin_def Let_def algebra_simps diff_divide_distrib)

lemma blend_right:
  assumes "b \<noteq> (a::real)"
  shows "(1 - (x - a) / (b - a)) * y0 + (x - a) / (b - a) * y1
       = y1 - (b - x) * ((y1 - y0) / (b - a))"
proof -
  define w where "w = (b - x) / (b - a)"
  have A: "(x - a) / (b - a) = 1 - w"
    using assms by (simp add: w_def field_simps)
  have B: "(b - x) * ((y1 - y0) / (b - a)) = w * (y1 - y0)"
    by (simp add: w_def)
  show ?thesis unfolding A B by (simp add: algebra_simps)
qed

lemma lin_affine_right:
  assumes "xs ! rseg xs x \<noteq> xs ! (rseg xs x - 1)"
  shows "lin xs ys x =
     ys ! rseg xs x
       - (xs ! rseg xs x - x)
         * ((ys ! rseg xs x - ys ! (rseg xs x - 1)) / (xs ! rseg xs x - xs ! (rseg xs x - 1)))"
  unfolding lin_def Let_def by (rule blend_right [OF assms])

lemma strict_sorted_step:
  assumes "sorted_wrt (<) xs" "1 \<le> i" "i < length xs"
  shows "xs ! (i - 1) < (xs ! i :: real)"
  using sorted_wrt_nth_less [OF assms(1), of "i - 1" i] assms(2,3) by simp

lemma strict_sorted_sorted: "sorted_wrt (<) xs \<Longrightarrow> sorted (xs :: real list)"
  by (simp add: strict_sorted_imp_sorted)

lemma slope_nonneg:
  assumes "sorted_wrt (<) xs" "sorted ys" "length ys = length xs" "1 \<le> i" "i < length xs"
  shows "0 \<le> (ys ! i - ys ! (i - 1)) / (xs ! i - xs ! (i - 1 :: nat) :: real)"
proof -
  have "ys ! (i - 1) \<le> ys ! i"
    using assms(2,3,5) by (simp add: sorted_nth_mono)
  moreover have "xs ! (i - 1) < xs ! i"
    by (rule strict_sorted_step [OF assms(1,4,5)])
  ultimately show ?thesis by simp
qed

lemma lin_mono:
  assumes xs: "sorted_wrt (<) xs" and ys: "sorted ys" and len: "length ys = length xs"
    and n: "2 \<le> length xs" and x: "x1 \<le> x2"
  shows "lin xs ys x1 \<le> lin xs ys x2"
proof -
  let ?i1 = "rseg xs x1" and ?i2 = "rseg xs x2"
  have sx: "sorted xs" by (rule strict_sorted_sorted [OF xs])
  have b1: "1 \<le> ?i1" "?i1 < length xs" and b2: "1 \<le> ?i2" "?i2 < length xs"
    using rseg_bounds [OF n, of x1] rseg_bounds [OF n, of x2] n by linarith+
  have le: "?i1 \<le> ?i2" by (rule rseg_mono [OF x])
  show ?thesis
  proof (cases "?i1 = ?i2")
    case True
    have "0 \<le> (ys ! ?i2 - ys ! (?i2 - 1)) / (xs ! ?i2 - xs ! (?i2 - 1))"
      by (rule slope_nonneg [OF xs ys len b2])
    then have "(x1 - xs ! (?i2 - 1)) * ((ys ! ?i2 - ys ! (?i2 - 1)) / (xs ! ?i2 - xs ! (?i2 - 1)))
        \<le> (x2 - xs ! (?i2 - 1)) * ((ys ! ?i2 - ys ! (?i2 - 1)) / (xs ! ?i2 - xs ! (?i2 - 1)))"
      using x by (intro mult_right_mono) simp_all
    then show ?thesis
      using True by (simp add: lin_affine [of xs ys x1] lin_affine [of xs ys x2])
  next
    case False
    then have lt: "?i1 < ?i2" using le by simp
    have r1: "x1 \<le> xs ! ?i1"
      using rseg_right [OF sx n, of x1] lt b2 by linarith
    have ne1: "xs ! ?i1 \<noteq> xs ! (?i1 - 1)"
      using strict_sorted_step [OF xs b1] by simp
    have "0 \<le> (xs ! ?i1 - x1) * ((ys ! ?i1 - ys ! (?i1 - 1)) / (xs ! ?i1 - xs ! (?i1 - 1)))"
      using r1 slope_nonneg [OF xs ys len b1] by (intro mult_nonneg_nonneg) simp_all
    then have A: "lin xs ys x1 \<le> ys ! ?i1"
      by (simp add: lin_affine_right [OF ne1])
    have l2: "xs ! (?i2 - 1) < x2"
      using rseg_left [OF sx n, of x2] lt b1 by linarith
    have "0 \<le> (x2 - xs ! (?i2 - 1)) * ((ys ! ?i2 - ys ! (?i2 - 1)) / (xs ! ?i2 - xs ! (?i2 - 1)))"
      using l2 slope_nonneg [OF xs ys len b2] by (intro mult_nonneg_nonneg) simp_all
    then have B: "ys ! (?i2 - 1) \<le> lin xs ys x2"
      by (simp add: lin_affine [of xs ys x2])
    have "ys ! ?i1 \<le> ys ! (?i2 - 1)"
      using ys lt b2 len by (intro sorted_nth_mono) simp_all
    then show ?thesis using A B by linarith
  qed
qed

lemma rseg_at_first:
  assumes "sorted_wrt (<) xs" "2 \<le> length xs"
  shows "rseg xs (xs ! 0) = 1"
proof -
  have "0 < length xs" using assms(2) by (cases xs) simp_all
  then have "(0 < length (filter (\<lambda>v. v < xs ! 0) xs)) = (xs ! 0 < xs ! 0)"
    by (rule count_below_sorted [OF strict_sorted_sorted [OF assms(1)]])
  then have "length (filter (\<lambda>v. v < xs ! 0) xs) = 0" by simp
  then show ?thesis by (simp add: rseg_def)
qed

lemma lin_at_first:
  assumes "sorted_wrt (<) xs" "2 \<le> length xs"
  shows "lin xs ys (xs ! 0) = ys ! 0"
  by (simp add: lin_affine rseg_at_first [OF assms])

lemma lin_range:
  assumes xs: "sorted_wrt (<) xs" and len: "length ys = length xs" and n: "2 \<le> length xs"
    and lo: "xs ! 0 \<le> x" and hi: "x \<le> last xs"
    and ys: "\<forall>y \<in> set ys. l \<le> y \<and> y \<le> u"
  shows "l \<le> lin xs ys x \<and> lin xs ys x \<le> u"
proof -
  let ?i = "rseg xs x"
  have sx: "sorted xs" by (rule strict_sorted_sorted [OF xs])
  have b: "1 \<le> ?i" "?i < length xs"
    using rseg_bounds [OF n, of x] n by linarith+
  have step: "xs ! (?i - 1) < xs ! ?i" by (rule strict_sorted_step [OF xs b])
  have left: "xs ! (?i - 1) \<le> x"
  proof (cases "2 \<le> ?i")
    case True
    then show ?thesis using rseg_left [OF sx n True] by simp
  next
    case False
    then have "?i - 1 = 0" using b by simp
    then show ?thesis using lo by simp
  qed
  have right: "x \<le> xs ! ?i"
  proof (cases "?i < length xs - 1")
    case True
    then show ?thesis by (rule rseg_right [OF sx n])
  next
    case False
    then have "?i = length xs - 1" using b by simp
    moreover have "xs \<noteq> []" using n by (cases xs) simp_all
    ultimately show ?thesis using hi by (simp add: last_conv_nth)
  qed
  define w where "w = (x - xs ! (?i - 1)) / (xs ! ?i - xs ! (?i - 1))"
  have w: "0 \<le> w" "w \<le> 1"
    using left right step by (simp_all add: w_def)
  have y0: "l \<le> ys ! (?i - 1)" "ys ! (?i - 1) \<le> u" and y1: "l \<le> ys ! ?i" "ys ! ?i \<le> u"
    using ys b len by (simp_all add: less_imp_diff_less)
  have eq: "lin xs ys x = (1 - w) * ys ! (?i - 1) + w * ys ! ?i"
    by (simp add: lin_def Let_def w_def)
  have "(1 - w) * l + w * l \<le> (1 - w) * ys ! (?i - 1) + w * ys ! ?i"
    using w y0 y1 by (intro add_mono mult_left_mono) simp_all
  moreover have "(1 - w) * ys ! (?i - 1) + w * ys ! ?i \<le> (1 - w) * u + w * u"
    using w y0 y1 by (intro add_mono mult_left_mono) simp_all
  ultimately show ?thesis by (simp add: eq algebra_simps)
qed

lemma interp1_Fin:
  assumes "sorted_wrt (<) xs" "length ys = length xs" "2 \<le> length xs"
  shows "interp1 (map Fin xs) (map Fin ys) (Fin x) = Fin (lin xs ys x)"
proof -
  let ?i = "rseg xs x"
  have b: "1 \<le> ?i" "?i < length xs"
    using rseg_bounds [OF assms(3), of x] assms(3) by linarith+
  have step: "xs ! (?i - 1) < xs ! ?i" by (rule strict_sorted_step [OF assms(1) b])
  have i1: "?i - 1 < length xs" using b by simp
  show ?thesis
    using assms(2,3) b i1 step
    by (simp add: interp1_def segment_Fin weight_def blend_def lin_def Let_def minus_npf_def)
qed


lemma np_power_pos: "0 < v \<Longrightarrow> np_power (Fin v) y = Fin (v powr y)"
  by (simp add: real_pow_def)

lemma py_pow_pos: "0 < a \<Longrightarrow> py_pow a y = a powr y"
  by (simp add: py_pow_def real_pow_def)

lemma entry_xNowArray:
  assumes "i < aXtraCount p" "j < length (TranShkGrid p)"
  shows "entry (xNowArray p) i j =
    np_power (EndOfPrdvP_temp p ! i * TranShkScaleFac p ! j) (- 1 / (CRRA p - LbrCost p * frac p))"
  using assms
  by (simp add: xNowArray_def amap_def entry_def EndOfPrdvP_def length_EndOfPrdvP_temp
      length_TranShkScaleFac)

lemma entry_xNowPowered:
  assumes "i < aXtraCount p" "j < length (TranShkGrid p)"
  shows "entry (xNowPowered p) i j = np_power (entry (xNowArray p) i j) (frac p)"
  unfolding xNowPowered_def using assms by (simp add: entry_amap [OF shape_xNowArray])

lemma entry_TranShkGrid_rep:
  assumes "i < aXtraCount p" "j < length (TranShkGrid p)"
  shows "entry (TranShkGrid_rep p) i j = Fin (TranShkGrid p ! j)"
  using assms by (simp add: TranShkGrid_rep_def entry_tile_rows)

lemma entry_LsrNow_foc:
  assumes "i < aXtraCount p" "j < length (TranShkGrid p)"
  shows "entry (LsrNow_foc p) i j =
    np_power (Fin (LbrCost p) / (Fin (WageRte p) * Fin (TranShkGrid p ! j))) (frac p)
      * entry (xNowPowered p) i j"
proof -
  let ?A = "amap (\<lambda>shk. np_power (Fin (LbrCost p) / (Fin (WageRte p) * shk)) (frac p))
          (TranShkGrid_rep p)"
  have A: "shape ?A (aXtraCount p) (length (TranShkGrid p))"
    by (intro shape_amap shape_TranShkGrid_rep)
  have eA: "entry ?A i j
      = np_power (Fin (LbrCost p) / (Fin (WageRte p) * Fin (TranShkGrid p ! j))) (frac p)"
    using assms
    by (subst entry_amap [OF shape_TranShkGrid_rep]) (simp_all only: entry_TranShkGrid_rep)
  show ?thesis
    unfolding LsrNow_foc_def using assms
    by (simp only: entry_amap2 [OF A shape_xNowPowered] eA)
qed

lemma entry_cNrmNow_foc:
  assumes "i < aXtraCount p" "j < length (TranShkGrid p)"
  shows "entry (cNrmNow_foc p) i j =
    np_power ((Fin (WageRte p) * Fin (TranShkGrid p ! j)) / Fin (LbrCost p)) (LbrCost p * frac p)
      * entry (xNowPowered p) i j"
proof -
  let ?A = "amap (\<lambda>shk. np_power ((Fin (WageRte p) * shk) / Fin (LbrCost p)) (LbrCost p * frac p))
          (TranShkGrid_rep p)"
  have A: "shape ?A (aXtraCount p) (length (TranShkGrid p))"
    by (intro shape_amap shape_TranShkGrid_rep)
  have eA: "entry ?A i j
      = np_power ((Fin (WageRte p) * Fin (TranShkGrid p ! j)) / Fin (LbrCost p)) (LbrCost p * frac p)"
    using assms
    by (subst entry_amap [OF shape_TranShkGrid_rep]) (simp_all only: entry_TranShkGrid_rep)
  show ?thesis
    unfolding cNrmNow_foc_def using assms
    by (simp only: entry_amap2 [OF A shape_xNowPowered] eA)
qed


lemma wp_es_length: "well_posed p es \<Longrightarrow> length es = aXtraCount p"
  using length_EndOfPrdvP_temp [of p] by (simp add: well_posed_def)

lemma wp_es_mono:
  assumes "well_posed p es" "i \<le> k" "k < aXtraCount p"
  shows "es ! k \<le> es ! i"
proof -
  have "sorted (rev es)" using assms(1) by (simp add: well_posed_def)
  then show ?thesis
    using sorted_rev_nth_mono [of es i k] assms(2,3) wp_es_length [OF assms(1)] by simp
qed

lemma wp_es_pos:
  assumes "well_posed p es" "i < aXtraCount p"
  shows "0 < es ! i"
proof -
  have l: "0 < last es" using assms(1) by (simp add: well_posed_def)
  have len: "length es = aXtraCount p" by (rule wp_es_length [OF assms(1)])
  have "es \<noteq> []" using assms(2) len by auto
  then have "last es = es ! (aXtraCount p - 1)" using len by (simp add: last_conv_nth)
  moreover have "es ! (aXtraCount p - 1) \<le> es ! i"
    using assms(2) by (intro wp_es_mono [OF assms(1)]) simp_all
  ultimately show ?thesis using l by simp
qed

lemma wp_es_nth:
  assumes "well_posed p es" "i < aXtraCount p"
  shows "EndOfPrdvP_temp p ! i = Fin (es ! i)"
proof -
  have "EndOfPrdvP_temp p = map Fin es" using assms(1) by (simp add: well_posed_def)
  then show ?thesis using assms(2) wp_es_length [OF assms(1)] by simp
qed

lemma wp_params:
  assumes "solveConsLaborIntMarg p = Inr (Some s)" "well_posed p es"
  shows "0 < frac p" "frac p < 1" "0 < LbrCost p * frac p" "frac p + LbrCost p * frac p = 1"
    "0 < CRRA p - LbrCost p * frac p" "0 < CRRA p" "0 < LbrCost p" "0 < WageRte p"
proof -
  have a: "0 < LbrCost p" and w: "0 < WageRte p" using assms(2) by (simp_all add: well_posed_def)
  show "0 < LbrCost p" "0 < WageRte p" by (rule a, rule w)
  show f: "0 < frac p" using a by (simp add: frac_def)
  show "frac p < 1" using a by (simp add: frac_def)
  show af: "0 < LbrCost p * frac p" using a f by simp
  show "frac p + LbrCost p * frac p = 1" using a by (simp add: frac_def field_simps)
  show c: "0 < CRRA p - LbrCost p * frac p"
    using assms(2) by (simp add: well_posed_def frac_def)
  show "0 < CRRA p" using c af by linarith
qed

lemma wp_shk0: "well_posed p es \<Longrightarrow> 0 \<le> TranShkGrid p ! 0"
  by (cases "TranShkGrid p") (simp_all add: well_posed_def)

lemma wp_shk_pos:
  assumes "well_posed p es" "0 < j" "j < length (TranShkGrid p)"
  shows "0 < TranShkGrid p ! j"
proof -
  have "sorted_wrt (<) (TranShkGrid p)" using assms(1) by (simp add: well_posed_def)
  then show ?thesis
    using sorted_wrt_nth_less [of "(<)" "TranShkGrid p" 0 j] assms(2,3) wp_shk0 [OF assms(1)]
    by simp
qed

lemma wp_a_less:
  assumes "well_posed p es" "i < k" "k < aXtraCount p"
  shows "aXtraGrid p ! i < aXtraGrid p ! k"
proof -
  have "sorted_wrt (<) (aXtraGrid p)" using assms(1) by (simp add: well_posed_def)
  then show ?thesis
    using sorted_wrt_nth_less [of "(<)" "aXtraGrid p" i k] assms(2,3) by (simp add: aXtraCount_def)
qed

lemma wp_a_pos:
  assumes "well_posed p es" "i < aXtraCount p"
  shows "0 < aXtraGrid p ! i"
proof -
  have z: "0 < aXtraGrid p ! 0"
    using assms(1) by (cases "aXtraGrid p") (simp_all add: well_posed_def)
  show ?thesis
  proof (cases i)
    case 0
    then show ?thesis using z by simp
  next
    case (Suc i')
    then show ?thesis using wp_a_less [OF assms(1), of 0 i] assms(2) z by simp
  qed
qed

lemma uPinv_Fin: "0 < e \<Longrightarrow> uPinv p (Fin e) = Fin (uR p e)"
  by (simp add: uPinv_def CRRAutilityP_inv_def uR_def np_power_pos del: np_power.simps)

lemma sR_pos:
  assumes "0 < frac p" "0 < LbrCost p" "0 < WageRte p" "0 < shk"
  shows "0 < sR p shk"
  unfolding sR_def using assms
  by (intro mult_pos_pos add_pos_pos) simp_all

lemma TranShkScaleFac_Fin:
  assumes "0 < LbrCost p" "0 < WageRte p" "j < length (TranShkGrid p)" "0 < TranShkGrid p ! j"
  shows "TranShkScaleFac p ! j = Fin (sR p (TranShkGrid p ! j))"
  using assms by (simp add: TranShkScaleFac_def sR_def np_power_pos py_pow_pos del: np_power.simps)

lemma xR_pos: "0 < e \<Longrightarrow> 0 < sR p shk \<Longrightarrow> 0 < xR p e shk"
  by (simp add: xR_def)

lemma foc_entries:
  assumes S: "solveConsLaborIntMarg p = Inr (Some s)" and W: "well_posed p es"
    and i: "i < aXtraCount p" and j: "0 < j" "j < length (TranShkGrid p)"
  shows "entry (LsrNow_foc p) i j = Fin (LfR p (es ! i) (TranShkGrid p ! j))"
    and "entry (cNrmNow_foc p) i j = Fin (cfR p (es ! i) (TranShkGrid p ! j))"
proof -
  let ?shk = "TranShkGrid p ! j" and ?e = "es ! i"
  note P = wp_params [OF S W]
  have shk: "0 < ?shk" by (rule wp_shk_pos [OF W j])
  have e: "0 < ?e" by (rule wp_es_pos [OF W i])
  have s: "0 < sR p ?shk" by (rule sR_pos [OF P(1,7,8) shk])
  have x: "0 < xR p ?e ?shk" by (rule xR_pos [OF e s])
  have "entry (xNowArray p) i j = Fin (xR p ?e ?shk)"
    using e s
    by (simp add: entry_xNowArray [OF i j(2)] wp_es_nth [OF W i]
        TranShkScaleFac_Fin [OF P(7,8) j(2) shk] np_power_pos xR_def del: np_power.simps)
  then have xp: "entry (xNowPowered p) i j = Fin (xR p ?e ?shk powr frac p)"
    using x by (simp add: entry_xNowPowered [OF i j(2)] np_power_pos del: np_power.simps)
  have ws: "0 < WageRte p * ?shk" using P(8) shk by simp
  have q1: "0 < LbrCost p / (WageRte p * ?shk)" using P(7) ws by simp
  have q2: "0 < WageRte p * ?shk / LbrCost p" using P(7) ws by simp
  have wz: "WageRte p * ?shk \<noteq> 0" using P(8) shk by simp
  have d1: "Fin (LbrCost p) / (Fin (WageRte p) * Fin ?shk) = Fin (LbrCost p / (WageRte p * ?shk))"
    using wz by simp
  have d2: "(Fin (WageRte p) * Fin ?shk) / Fin (LbrCost p) = Fin (WageRte p * ?shk / LbrCost p)"
    using P(7) by simp
  show "entry (LsrNow_foc p) i j = Fin (LfR p ?e ?shk)"
    unfolding entry_LsrNow_foc [OF i j(2)] xp d1 np_power_pos [OF q1] by (simp add: LfR_def)
  show "entry (cNrmNow_foc p) i j = Fin (cfR p ?e ?shk)"
    unfolding entry_cNrmNow_foc [OF i j(2)] xp d2 np_power_pos [OF q2] by (simp add: cfR_def)
qed

lemma final_entries:
  assumes S: "solveConsLaborIntMarg p = Inr (Some s)" and W: "well_posed p es"
    and i: "i < aXtraCount p" and j: "j < length (TranShkGrid p)"
  shows "entry (LsrNow p) i j = Fin (LR p (es ! i) (TranShkGrid p ! j) j)"
    and "entry (cNrmNow p) i j = Fin (cR p (es ! i) (TranShkGrid p ! j) j)"
    and "entry (bNrmNow p) i j
           = Fin (bR p (aXtraGrid p ! i) (es ! i) (TranShkGrid p ! j) j)"
proof -
  have k: "length (TranShkGrid p) = TranShkCount p" by (rule solve_SomeD(2) [OF S])
  have u: "uPinv p (EndOfPrdvP_temp p ! i) = Fin (uR p (es ! i))"
    by (simp add: wp_es_nth [OF W i] uPinv_Fin [OF wp_es_pos [OF W i]])
  show L: "entry (LsrNow p) i j = Fin (LR p (es ! i) (TranShkGrid p ! j) j)"
  proof (cases "j = 0")
    case True
    then show ?thesis
      using entry_LsrNow [OF i j] entry_LsrNow_col0 [OF i j] by (simp add: LR_def)
  next
    case False
    then show ?thesis
      using entry_LsrNow [OF i j] entry_LsrNow_col0 [OF i j] foc_entries(1) [OF S W i _ j]
      by (simp add: LR_def)
  qed
  show C: "entry (cNrmNow p) i j = Fin (cR p (es ! i) (TranShkGrid p ! j) j)"
  proof (cases "j = 0")
    case True
    then show ?thesis
      using entry_cNrmNow [OF k i j] entry_cNrmNow_col0 [OF i j] entry_LsrNow_col0 [OF i j] u
      by (simp add: cR_def)
  next
    case False
    then show ?thesis
      using entry_cNrmNow [OF k i j] entry_cNrmNow_col0 [OF i j] entry_LsrNow_col0 [OF i j] u
        foc_entries [OF S W i _ j]
      by (simp add: cR_def)
  qed
  show "entry (bNrmNow p) i j = Fin (bR p (aXtraGrid p ! i) (es ! i) (TranShkGrid p ! j) j)"
    unfolding entry_bNrmNow [OF k i j] L C by (simp add: bR_def minus_npf_def)
qed


lemma scale_identity:
  fixes a f w :: real
  assumes a: "0 < a" and w: "0 < w" and f: "f + a * f = 1"
  shows "f * w powr (a * f) * (a powr (- a * f) + a powr f) = (w / a) powr (a * f)"
proof -
  have "f = 1 + (- a * f)" using f by simp
  then have "a powr f = a powr (1 + (- a * f))" by simp
  also have "\<dots> = a * a powr (- a * f)"
    using a by (simp only: powr_add powr_one)
  finally have "a powr (- a * f) + a powr f = a powr (- a * f) * (1 + a)"
    by (simp add: algebra_simps)
  then have "f * w powr (a * f) * (a powr (- a * f) + a powr f)
      = (f * (1 + a)) * (w powr (a * f) * a powr (- a * f))"
    by simp
  also have "f * (1 + a) = 1" using f by (simp add: algebra_simps)
  also have "w powr (a * f) * a powr (- a * f) = (w / a) powr (a * f)"
    unfolding powr_divide by (simp add: powr_minus divide_inverse)
  finally show ?thesis by simp
qed

lemma sR_identity:
  assumes "0 < LbrCost p" "0 < WageRte p" "0 < shk"
  shows "sR p shk = (WageRte p * shk / LbrCost p) powr (LbrCost p * frac p)"
proof -
  have "frac p + LbrCost p * frac p = 1" using assms(1) by (simp add: frac_def field_simps)
  then show ?thesis
    unfolding sR_def using assms by (intro scale_identity) simp_all
qed

text \<open>Interior leisure at most 1 bounds interior consumption by w / alpha.\<close>

lemma interior_consumption_bound:
  fixes a f r X :: real
  assumes r: "0 < r" and f: "f + a * f = 1" and L: "(1 / r) powr f * X \<le> 1"
  shows "r powr (a * f) * X \<le> r"
proof -
  have rf: "0 < r powr f" using r by simp
  have "(1 / r) powr f = 1 / r powr f" by (simp add: powr_divide)
  then have "X \<le> r powr f" using L rf by (simp add: field_simps)
  then have "r powr (a * f) * X \<le> r powr (a * f) * r powr f"
    by (intro mult_left_mono) simp_all
  also have "\<dots> = r powr (a * f + f)" by (simp add: powr_add)
  also have "a * f + f = 1" using f by simp
  finally show ?thesis using r by simp
qed


lemma powr_inverse_exponent:
  fixes g y :: real
  assumes "0 < g" "0 < y"
  shows "(y powr (- 1 / g)) powr (- g) = y" and "(y powr (- g)) powr (- 1 / g) = y"
proof -
  have e: "(- 1 / g) * (- g) = 1" "(- g) * (- 1 / g) = 1" using assms(1) by (simp_all add: field_simps)
  have "(y powr (- 1 / g)) powr (- g) = y powr 1" by (simp only: powr_powr e)
  then show "(y powr (- 1 / g)) powr (- g) = y" using assms(2) by (simp only: powr_one)
  have "(y powr (- g)) powr (- 1 / g) = y powr 1" by (simp only: powr_powr e)
  then show "(y powr (- g)) powr (- 1 / g) = y" using assms(2) by (simp only: powr_one)
qed

text \<open>Interior leisure above 1 bounds the corner consumption from below by w / alpha.\<close>

lemma corner_consumption_bound:
  fixes a f r e rho :: real
  assumes r: "0 < r" and e: "0 < e" and f: "0 < f" and g: "a * f < rho" and af: "0 < a * f"
    and L: "1 < (1 / r) powr f * ((e * r powr (a * f)) powr (- 1 / (rho - a * f))) powr f"
  shows "r \<le> e powr (- 1 / rho)"
proof -
  define g where "g = rho - a * f"
  define y where "y = e * r powr (a * f)"
  define x where "x = y powr (- 1 / g)"
  have gp: "0 < g" and rho: "0 < rho" using assms(4,5) by (simp_all add: g_def)
  have yp: "0 < y" using e r by (simp add: y_def)
  have xp: "0 < x" using yp by (simp add: x_def)
  have rf: "0 < r powr f" using r by simp
  have L': "1 < (1 / r) powr f * x powr f" using L by (simp only: x_def y_def g_def)
  have "(1 / r) powr f * x powr f = x powr f / r powr f" by (simp add: powr_divide)
  then have "1 < x powr f / r powr f" using L' by simp
  then have "r powr f < x powr f" using rf by (simp only: less_divide_eq_1_pos)
  then have rx: "r < x" by (rule powr_less_cancel2 [OF f r xp])
  have "x powr (- g) < r powr (- g)"
    using gp r rx by (intro powr_less_mono2_neg) simp_all
  moreover have "x powr (- g) = y"
    unfolding x_def by (rule powr_inverse_exponent(1) [OF gp yp])
  ultimately have "e * r powr (a * f) < r powr (- g)" by (simp only: y_def)
  moreover have pa: "0 < r powr (a * f)" using r by simp
  ultimately have "e < r powr (- g) / r powr (a * f)" by (simp only: pos_less_divide_eq)
  also have "r powr (- g) / r powr (a * f) = r powr (- g - a * f)"
    by (simp only: powr_diff)
  also have "- g - a * f = - rho" by (simp add: g_def)
  finally have "e < r powr (- rho)" .
  then have "e \<le> r powr (- rho)" by simp
  then have "(r powr (- rho)) powr (- 1 / rho) \<le> e powr (- 1 / rho)"
    using e rho by (intro powr_mono2') simp_all
  moreover have "(r powr (- rho)) powr (- 1 / rho) = r"
    by (rule powr_inverse_exponent(2) [OF rho r])
  ultimately show ?thesis by simp
qed


lemma uR_pos: "0 < e \<Longrightarrow> 0 < uR p e"
  by (simp add: uR_def)

lemma uR_mono:
  assumes "0 < CRRA p" "0 < e'" "e' \<le> e"
  shows "uR p e \<le> uR p e'"
  unfolding uR_def using assms by (intro powr_mono2') simp_all

lemma xR_mono:
  assumes "0 < CRRA p - LbrCost p * frac p" "0 < sR p shk" "0 < e'" "e' \<le> e"
  shows "xR p e shk \<le> xR p e' shk"
  unfolding xR_def using assms by (intro powr_mono2') simp_all

lemma xR_powr_mono:
  assumes "0 < frac p" "0 < CRRA p - LbrCost p * frac p" "0 < sR p shk" "0 < e'" "e' \<le> e"
  shows "xR p e shk powr frac p \<le> xR p e' shk powr frac p"
  using assms(1) xR_mono [OF assms(2-5)] by (intro powr_mono2) (simp_all add: xR_def)

lemma LfR_mono:
  assumes "0 < frac p" "0 < CRRA p - LbrCost p * frac p" "0 < sR p shk" "0 < e'" "e' \<le> e"
  shows "LfR p e shk \<le> LfR p e' shk"
  unfolding LfR_def using xR_powr_mono [OF assms] by (intro mult_left_mono) simp_all

lemma cfR_mono:
  assumes "0 < frac p" "0 < CRRA p - LbrCost p * frac p" "0 < sR p shk" "0 < e'" "e' \<le> e"
  shows "cfR p e shk \<le> cfR p e' shk"
  unfolding cfR_def using xR_powr_mono [OF assms] by (intro mult_left_mono) simp_all

lemma LfR_nonneg: "0 \<le> LfR p e shk"
  by (simp add: LfR_def)

lemma cfR_nonneg: "0 \<le> cfR p e shk"
  by (simp add: cfR_def)

lemma LR_range: "0 \<le> LR p e shk j \<and> LR p e shk j \<le> 1"
  using LfR_nonneg [of p e shk] by (simp add: LR_def)

lemma cR_nonneg: "0 < e \<Longrightarrow> 0 \<le> cR p e shk j"
  using cfR_nonneg [of p e shk] uR_pos [of e p] by (simp add: cR_def)

lemma LR_mono:
  assumes "0 < frac p" "0 < CRRA p - LbrCost p * frac p" "0 < sR p shk" "0 < e'" "e' \<le> e"
  shows "LR p e shk j \<le> LR p e' shk j"
  using LfR_mono [OF assms] by (simp add: LR_def)

lemma cR_mono:
  assumes S: "solveConsLaborIntMarg p = Inr (Some s)" and W: "well_posed p es"
    and shk: "0 < j \<longrightarrow> 0 < shk" and e': "0 < e'" and e: "e' \<le> e"
  shows "cR p e shk j \<le> cR p e' shk j"
proof (cases "j = 0")
  case True
  then show ?thesis
    using uR_mono [OF wp_params(6) [OF S W] e' e] by (simp add: cR_def)
next
  case False
  then have sp: "0 < shk" using shk by simp
  note P = wp_params [OF S W]
  have s: "0 < sR p shk" by (rule sR_pos [OF P(1,7,8) sp])
  define r where "r = WageRte p * shk / LbrCost p"
  have r: "0 < r" using P(7,8) sp by (simp add: r_def)
  have sr: "sR p shk = r powr (LbrCost p * frac p)"
    unfolding r_def by (rule sR_identity [OF P(7,8) sp])
  have inv: "LbrCost p / (WageRte p * shk) = 1 / r" by (simp add: r_def)
  have Lm: "LfR p e shk \<le> LfR p e' shk" by (rule LfR_mono [OF P(1,5) s e' e])
  have ep: "0 < e" using e' e by simp
  consider (corner) "1 < LfR p e shk" | (interior) "LfR p e' shk \<le> 1"
    | (cross) "LfR p e shk \<le> 1" "1 < LfR p e' shk"
    by linarith
  then show ?thesis
  proof cases
    case corner
    then have "1 < LfR p e' shk" using Lm by simp
    then show ?thesis
      using corner uR_mono [OF P(6) e' e] by (simp add: cR_def)
  next
    case interior
    then have "LfR p e shk \<le> 1" using Lm by simp
    then show ?thesis
      using interior False cfR_mono [OF P(1,5) s e' e] by (simp add: cR_def)
  next
    case cross
    have "r powr (LbrCost p * frac p) * xR p e shk powr frac p \<le> r"
      using cross(1) unfolding LfR_def inv
      by (intro interior_consumption_bound [OF r P(4)])
    then have A: "cfR p e shk \<le> r" by (simp add: cfR_def r_def)
    have "1 < (1 / r) powr frac p
        * ((e' * r powr (LbrCost p * frac p)) powr (- 1 / (CRRA p - LbrCost p * frac p))) powr frac p"
      using cross(2) unfolding LfR_def inv xR_def sr .
    then have B: "r \<le> uR p e'"
      unfolding uR_def using P
      by (intro corner_consumption_bound [OF r e', of "frac p" "LbrCost p"]) simp_all
    show ?thesis using cross False A B by (simp add: cR_def)
  qed
qed


lemma LR_mono':
  assumes S: "solveConsLaborIntMarg p = Inr (Some s)" and W: "well_posed p es"
    and shk: "0 < j \<longrightarrow> 0 < shk" and e': "0 < e'" and e: "e' \<le> e"
  shows "LR p e shk j \<le> LR p e' shk j"
proof (cases "j = 0")
  case True
  then show ?thesis by (simp add: LR_def)
next
  case False
  then have sp: "0 < shk" using shk by simp
  note P = wp_params [OF S W]
  show ?thesis by (rule LR_mono [OF P(1,5) sR_pos [OF P(1,7,8) sp] e' e])
qed

lemma nth_col: "k \<le> n \<Longrightarrow> (v # map f [0 ..< n]) ! k = (if k = 0 then v else f (k - 1))"
  by (cases k) simp_all

lemma column_shape: "shape A n m \<Longrightarrow> j < m \<Longrightarrow> column A j = map (\<lambda>i. entry A i j) [0 ..< n]"
  by (auto simp add: shape_def column_def entry_def intro: nth_equalityI)

lemma xcol_value:
  "bR p a e shk j + WageRte p * shk = a + cR p e shk j + WageRte p * shk * LR p e shk j"
  by (simp add: bR_def)

lemma sorted_xcolR:
  assumes S: "solveConsLaborIntMarg p = Inr (Some s)" and W: "well_posed p es"
    and j: "j < length (TranShkGrid p)"
  shows "sorted_wrt (<) (xcolR p es j)"
proof -
  let ?n = "aXtraCount p" and ?shk = "TranShkGrid p ! j"
  let ?f = "\<lambda>i. aXtraGrid p ! i + cR p (es ! i) ?shk j + WageRte p * ?shk * LR p (es ! i) ?shk j"
  have X: "xcolR p es j = 0 # map ?f [0 ..< ?n]"
    by (simp add: xcolR_def xcol_value)
  note P = wp_params [OF S W]
  have shk0: "0 \<le> ?shk"
    using wp_shk0 [OF W] wp_shk_pos [OF W _ j] by (cases "j = 0") (simp_all add: less_imp_le)
  have shkp: "0 < j \<longrightarrow> 0 < ?shk" using wp_shk_pos [OF W _ j] by simp
  have ws: "0 \<le> WageRte p * ?shk" using P(8) shk0 by simp
  have pos: "0 < ?f i" if "i < ?n" for i
  proof -
    have "0 \<le> WageRte p * ?shk * LR p (es ! i) ?shk j"
      using ws LR_range [of p "es ! i" ?shk j] by (intro mult_nonneg_nonneg [of "WageRte p * ?shk"]) simp_all
    then show ?thesis
      using wp_a_pos [OF W that] cR_nonneg [OF wp_es_pos [OF W that], of p ?shk j] by linarith
  qed
  have inc: "?f i < ?f k" if "i < k" "k < ?n" for i k
  proof -
    have ik: "i \<le> k" using that by simp
    have e: "es ! k \<le> es ! i" by (rule wp_es_mono [OF W ik that(2)])
    have ek: "0 < es ! k" by (rule wp_es_pos [OF W that(2)])
    have "cR p (es ! i) ?shk j \<le> cR p (es ! k) ?shk j"
      by (rule cR_mono [OF S W shkp ek e])
    moreover have "WageRte p * ?shk * LR p (es ! i) ?shk j \<le> WageRte p * ?shk * LR p (es ! k) ?shk j"
      using ws LR_mono' [OF S W shkp ek e] by (intro mult_left_mono) simp_all
    ultimately show ?thesis using wp_a_less [OF W that] by linarith
  qed
  show ?thesis
    unfolding X sorted_wrt_iff_nth_less
  proof (intro allI impI)
    fix a b assume ab: "a < b" "b < length (0 # map ?f [0 ..< ?n])"
    then have b: "b \<le> ?n" "a \<le> ?n" by simp_all
    show "(0 # map ?f [0 ..< ?n]) ! a < (0 # map ?f [0 ..< ?n]) ! b"
    proof (cases "a = 0")
      case True
      then show ?thesis using ab b pos [of "b - 1"] by (simp add: nth_col)
    next
      case False
      then show ?thesis using ab b inc [of "a - 1" "b - 1"] by (simp add: nth_col)
    qed
  qed
qed

lemma sorted_ccolR:
  assumes S: "solveConsLaborIntMarg p = Inr (Some s)" and W: "well_posed p es"
    and j: "j < length (TranShkGrid p)"
  shows "sorted (ccolR p es j)"
proof -
  let ?n = "aXtraCount p" and ?shk = "TranShkGrid p ! j"
  let ?f = "\<lambda>i. cR p (es ! i) ?shk j"
  have shkp: "0 < j \<longrightarrow> 0 < ?shk" using wp_shk_pos [OF W _ j] by simp
  show ?thesis
    unfolding ccolR_def sorted_iff_nth_mono
  proof (intro allI impI)
    fix a b assume ab: "a \<le> b" "b < length (0 # map ?f [0 ..< ?n])"
    then have b: "b \<le> ?n" "a \<le> ?n" by simp_all
    show "(0 # map ?f [0 ..< ?n]) ! a \<le> (0 # map ?f [0 ..< ?n]) ! b"
    proof (cases "a = 0")
      case True
      then show ?thesis
        using ab b cR_nonneg [OF wp_es_pos [OF W, of "b - 1"], of p ?shk j] by (simp add: nth_col)
    next
      case False
      then have "cR p (es ! (a - 1)) ?shk j \<le> cR p (es ! (b - 1)) ?shk j"
        using ab b
        by (intro cR_mono [OF S W shkp wp_es_pos [OF W] wp_es_mono [OF W]]) simp_all
      then show ?thesis using False ab b by (simp add: nth_col)
    qed
  qed
qed

lemma sorted_vcolR:
  assumes S: "solveConsLaborIntMarg p = Inr (Some s)" and W: "well_posed p es"
  shows "sorted (vcolR p es j)"
proof -
  let ?n = "aXtraCount p"
  let ?f = "\<lambda>i. uR p (es ! i)"
  note P = wp_params [OF S W]
  show ?thesis
    unfolding vcolR_def sorted_iff_nth_mono
  proof (intro allI impI)
    fix a b assume ab: "a \<le> b" "b < length (0 # map ?f [0 ..< ?n])"
    then have b: "b \<le> ?n" "a \<le> ?n" by simp_all
    show "(0 # map ?f [0 ..< ?n]) ! a \<le> (0 # map ?f [0 ..< ?n]) ! b"
    proof (cases "a = 0")
      case True
      then show ?thesis
        using ab b uR_pos [OF wp_es_pos [OF W, of "b - 1"], of p] by (simp add: nth_col less_imp_le)
    next
      case False
      then have "uR p (es ! (a - 1)) \<le> uR p (es ! (b - 1))"
        using ab b
        by (intro uR_mono [OF P(6) wp_es_pos [OF W] wp_es_mono [OF W]]) simp_all
      then show ?thesis using False ab b by (simp add: nth_col)
    qed
  qed
qed

lemma lcolR_range: "\<forall>y \<in> set (lcolR p es j). 0 \<le> y \<and> y \<le> 1"
  using LR_range [of p _ "TranShkGrid p ! j" j] by (auto simp add: lcolR_def)

lemma length_cols [simp]:
  "length (xcolR p es j) = Suc (aXtraCount p)" "length (ccolR p es j) = Suc (aXtraCount p)"
  "length (lcolR p es j) = Suc (aXtraCount p)" "length (vcolR p es j) = Suc (aXtraCount p)"
  by (simp_all add: xcolR_def ccolR_def lcolR_def vcolR_def)


lemma column_Cons: "column (r # A) j = r ! j # column A j"
  by (simp add: column_def)

lemma column_amap: "column (amap f A) j = map f (column A j)"
  if "shape A n m" "j < m"
  using that by (simp add: column_shape [OF that] column_shape [OF shape_amap [OF that(1)] that(2)]
      entry_amap [OF that(1)])

lemma column_set_entry00:
  "0 < length r \<Longrightarrow> column (set_entry00 (r # A) x) j = (if j = 0 then x else r ! j) # column A j"
  by (simp add: column_def set_entry00_def)

lemma column_bNrmNow:
  assumes S: "solveConsLaborIntMarg p = Inr (Some s)" and W: "well_posed p es"
    and j: "j < length (TranShkGrid p)"
  shows "column (bNrmNow p) j
    = map (\<lambda>i. Fin (bR p (aXtraGrid p ! i) (es ! i) (TranShkGrid p ! j) j)) [0 ..< aXtraCount p]"
  unfolding column_shape [OF shape_bNrmNow [OF solve_SomeD(2) [OF S]] j]
  by (rule map_cong) (simp_all add: final_entries(3) [OF S W _ j])

lemma column_cNrmNow:
  assumes S: "solveConsLaborIntMarg p = Inr (Some s)" and W: "well_posed p es"
    and j: "j < length (TranShkGrid p)"
  shows "column (cNrmNow p) j
    = map (\<lambda>i. Fin (cR p (es ! i) (TranShkGrid p ! j) j)) [0 ..< aXtraCount p]"
  unfolding column_shape [OF shape_cNrmNow [OF solve_SomeD(2) [OF S]] j]
  by (rule map_cong) (simp_all add: final_entries(2) [OF S W _ j])

lemma column_LsrNow:
  assumes S: "solveConsLaborIntMarg p = Inr (Some s)" and W: "well_posed p es"
    and j: "j < length (TranShkGrid p)"
  shows "column (LsrNow p) j
    = map (\<lambda>i. Fin (LR p (es ! i) (TranShkGrid p ! j) j)) [0 ..< aXtraCount p]"
  unfolding column_shape [OF shape_LsrNow j]
  by (rule map_cong) (simp_all add: final_entries(1) [OF S W _ j])

lemma bNrmNow_temp_Fin:
  assumes S: "solveConsLaborIntMarg p = Inr (Some s)" and W: "well_posed p es"
    and j: "j < length (TranShkGrid p)"
  shows "bNrmNow_temp p j = map Fin (xcolR p es j)"
proof -
  have e: "bNowExtra p ! j = Fin (- (WageRte p * TranShkGrid p ! j))"
    using j by (simp add: bNowExtra_def)
  show ?thesis
    by (simp add: bNrmNow_temp_def bNowArray_def column_Cons entry_def e
        column_bNrmNow [OF S W j] xcolR_def minus_npf_def comp_def)
qed

lemma column_cNowArray_Fin:
  assumes S: "solveConsLaborIntMarg p = Inr (Some s)" and W: "well_posed p es"
    and j: "j < length (TranShkGrid p)"
  shows "column (cNowArray p) j = map Fin (ccolR p es j)"
  using j
  by (simp add: cNowArray_def column_Cons zeros_row_def column_cNrmNow [OF S W j] ccolR_def comp_def)

lemma column_LbrNowArray_Fin:
  assumes S: "solveConsLaborIntMarg p = Inr (Some s)" and W: "well_posed p es"
    and j: "j < length (TranShkGrid p)"
  shows "column (LbrNowArray p) j = map Fin (lcolR p es j)"
proof -
  have m: "0 < length (zeros_row p)"
    using j by (cases "TranShkGrid p") (simp_all add: zeros_row_def)
  have sh: "shape (LsrNowArray p) (Suc (aXtraCount p)) (length (TranShkGrid p))"
    unfolding LsrNowArray_def
    using shape_LsrNow [of p]
    by (intro shape_set_entry00) (auto simp add: shape_def zeros_row_def nth_Cons split: nat.splits)
  have z: "zeros_row p ! j = Fin 0" using j by (simp add: zeros_row_def)
  have c: "column (LsrNowArray p) j
      = (if j = 0 then Fin 1 else Fin 0) # column (LsrNow p) j"
    unfolding LsrNowArray_def column_set_entry00 [OF m] z ..
  show ?thesis
    unfolding LbrNowArray_def column_amap [OF sh j] c column_LsrNow [OF S W j]
    by (simp add: lcolR_def minus_npf_def comp_def)
qed

lemma column_vPnvrsNowArray_Fin:
  assumes S: "solveConsLaborIntMarg p = Inr (Some s)" and W: "well_posed p es"
    and j: "j < length (TranShkGrid p)"
  shows "column (vPnvrsNowArray p) j = map Fin (vcolR p es j)"
proof -
  have k: "length (TranShkGrid p) = TranShkCount p" by (rule solve_SomeD(2) [OF S])
  have j': "j < TranShkCount p" using j k by simp
  have "column (vPnvrsNow p) j = map (\<lambda>i. Fin (uR p (es ! i))) [0 ..< aXtraCount p]"
    unfolding vPnvrsNow_def column_amap [OF shape_EndOfPrdvP_tiled j']
      column_shape [OF shape_EndOfPrdvP_tiled j']
    by (simp add: EndOfPrdvP_tiled_def EndOfPrdvP_def entry_tile_cols length_EndOfPrdvP_temp j'
        wp_es_nth [OF W] uPinv_Fin [OF wp_es_pos [OF W]])
  then show ?thesis
    using j by (simp add: vPnvrsNowArray_def column_Cons zeros_row_def vcolR_def comp_def)
qed


lemma wp_grid_sorted:
  "well_posed p es \<Longrightarrow> sorted_wrt (<) (TranShkGrid p)"
  "well_posed p es \<Longrightarrow> 2 \<le> length (TranShkGrid p)"
  by (simp_all add: well_posed_def)

lemma wp_n: "well_posed p es \<Longrightarrow> 1 \<le> aXtraCount p"
  by (cases "aXtraGrid p") (simp_all add: well_posed_def aXtraCount_def)

lemma eval_bmin:
  assumes W: "well_posed p es"
  shows "eval1 (bNrmMinNow p) (Fin shk) = Fin (bminR p shk)"
proof -
  have e: "bNowArray p ! 0 = map Fin (map (\<lambda>t. - (WageRte p * t)) (TranShkGrid p))"
    by (simp add: bNowArray_def bNowExtra_def comp_def)
  show ?thesis
    unfolding bNrmMinNow_def bminR_def eval1.simps e
    by (rule interp1_Fin [OF wp_grid_sorted(1) [OF W] _ wp_grid_sorted(2) [OF W]]) simp
qed

lemma eval_surface:
  assumes S: "solveConsLaborIntMarg p = Inr (Some s)" and W: "well_posed p es"
    and cols: "\<And>j. j < length (TranShkGrid p) \<Longrightarrow> column Y j = map Fin (ycol j)"
    and len: "\<And>j. length (ycol j) = Suc (aXtraCount p)"
    and b: "bminR p shk \<le> b"
  shows "eval2
      (VariableLowerBoundFunc2D
         (LinearInterpOnInterp1D
            (map (\<lambda>j. LinearInterp (bNrmNow_temp p j) (column Y j)) [0 ..< length (TranShkGrid p)])
            (map Fin (TranShkGrid p)))
         (bNrmMinNow p))
      (Fin b) (Fin shk)
    = Fin (surf p es ycol b shk)"
proof -
  let ?g = "TranShkGrid p" and ?j = "rseg (TranShkGrid p) shk"
  let ?fs = "map (\<lambda>j. LinearInterp (bNrmNow_temp p j) (column Y j)) [0 ..< length ?g]"
  have m: "2 \<le> length ?g" by (rule wp_grid_sorted(2) [OF W])
  have jb: "1 \<le> ?j" "?j < length ?g"
    using rseg_bounds [OF m, of shk] m by linarith+
  have j1: "?j - 1 < length ?g" using jb by simp
  have step: "?g ! (?j - 1) < ?g ! ?j"
    by (rule strict_sorted_step [OF wp_grid_sorted(1) [OF W] jb])
  have n2: "2 \<le> length (xcolR p es k)" for k using wp_n [OF W] by simp
  have f: "eval1 (?fs ! k) (Fin x) = Fin (lin (xcolR p es k) (ycol k) x)"
    if "k < length ?g" for k x
    using that
    by (simp add: bNrmNow_temp_Fin [OF S W that] cols [OF that]
        interp1_Fin [OF sorted_xcolR [OF S W that] _ n2] len)
  have w: "weight (map Fin ?g) ?j (Fin shk)
      = Fin ((shk - ?g ! (?j - 1)) / (?g ! ?j - ?g ! (?j - 1)))"
    using jb j1 step by (simp add: weight_def minus_npf_def)
  have c: "\<not> (length (map Fin ?g) < 2 \<or> length ?fs \<noteq> length (map Fin ?g))"
    using m by simp
  have "interp_on_interp ?fs (map Fin ?g) (Fin (b - bminR p shk)) (Fin shk)
      = blend (weight (map Fin ?g) ?j (Fin shk))
          (eval1 (?fs ! (?j - 1)) (Fin (b - bminR p shk)))
          (eval1 (?fs ! ?j) (Fin (b - bminR p shk)))"
    unfolding interp_on_interp_def segment_Fin Let_def using c by (simp only: if_False)
  also have "\<dots> = Fin (surf p es ycol b shk)"
    unfolding w f [OF jb(2)] f [OF j1]
    by (simp add: blend_def minus_npf_def surf_def Let_def)
  finally have "interp_on_interp ?fs (map Fin ?g) (Fin (b - bminR p shk)) (Fin shk)
      = Fin (surf p es ycol b shk)" .
  then show ?thesis
    using b by (simp add: eval_bmin [OF W] minus_npf_def)
qed

lemma eval_cFuncNow:
  assumes "solveConsLaborIntMarg p = Inr (Some s)" "well_posed p es" "bminR p shk \<le> b"
  shows "eval2 (cFuncNow p) (Fin b) (Fin shk) = Fin (surf p es (ccolR p es) b shk)"
  unfolding cFuncNow_def cFuncNowBase_def cFuncNow_list_def
  by (rule eval_surface [OF assms(1,2) column_cNowArray_Fin [OF assms(1,2)] _ assms(3)]) simp_all

lemma eval_LbrFuncNow:
  assumes "solveConsLaborIntMarg p = Inr (Some s)" "well_posed p es" "bminR p shk \<le> b"
  shows "eval2 (LbrFuncNow p) (Fin b) (Fin shk) = Fin (surf p es (lcolR p es) b shk)"
  unfolding LbrFuncNow_def LbrFuncNowBase_def LbrFuncNow_list_def
  by (rule eval_surface [OF assms(1,2) column_LbrNowArray_Fin [OF assms(1,2)] _ assms(3)]) simp_all

lemma eval_vPnvrsFuncNow:
  assumes "solveConsLaborIntMarg p = Inr (Some s)" "well_posed p es" "bminR p shk \<le> b"
  shows "eval2 (vPnvrsFuncNow p) (Fin b) (Fin shk) = Fin (surf p es (vcolR p es) b shk)"
  unfolding vPnvrsFuncNow_def vPnvrsFuncNowBase_def vPnvrsFuncNow_list_def
  by (rule eval_surface [OF assms(1,2) column_vPnvrsNowArray_Fin [OF assms(1,2)] _ assms(3)]) simp_all


lemma rseg_weight_range:
  assumes xs: "sorted_wrt (<) xs" and n: "2 \<le> length xs"
    and lo: "xs ! 0 \<le> x" and hi: "x \<le> last xs"
  shows "0 \<le> (x - xs ! (rseg xs x - 1)) / (xs ! rseg xs x - xs ! (rseg xs x - 1))
       \<and> (x - xs ! (rseg xs x - 1)) / (xs ! rseg xs x - xs ! (rseg xs x - 1)) \<le> 1"
proof -
  let ?i = "rseg xs x"
  have sx: "sorted xs" by (rule strict_sorted_sorted [OF xs])
  have b: "1 \<le> ?i" "?i < length xs"
    using rseg_bounds [OF n, of x] n by linarith+
  have step: "xs ! (?i - 1) < xs ! ?i" by (rule strict_sorted_step [OF xs b])
  have left: "xs ! (?i - 1) \<le> x"
  proof (cases "2 \<le> ?i")
    case True
    then show ?thesis using rseg_left [OF sx n True] by simp
  next
    case False
    then have "?i - 1 = 0" using b by simp
    then show ?thesis using lo by simp
  qed
  have right: "x \<le> xs ! ?i"
  proof (cases "?i < length xs - 1")
    case True
    then show ?thesis by (rule rseg_right [OF sx n])
  next
    case False
    then have "?i = length xs - 1" using b by simp
    moreover have "xs \<noteq> []" using n by (cases xs) simp_all
    ultimately show ?thesis using hi by (simp add: last_conv_nth)
  qed
  show ?thesis using left right step by simp
qed

lemma convex_mono:
  fixes w :: real
  assumes "0 \<le> w" "w \<le> 1" "y0 \<le> z0" "y1 \<le> z1"
  shows "(1 - w) * y0 + w * y1 \<le> (1 - w) * z0 + w * z1"
  using assms by (intro add_mono mult_left_mono) simp_all

lemma convex_range:
  fixes w :: real
  assumes "0 \<le> w" "w \<le> 1" "l \<le> y0" "y0 \<le> u" "l \<le> y1" "y1 \<le> u"
  shows "l \<le> (1 - w) * y0 + w * y1 \<and> (1 - w) * y0 + w * y1 \<le> u"
proof -
  have "(1 - w) * l + w * l \<le> (1 - w) * y0 + w * y1"
    by (rule convex_mono [OF assms(1,2,3,5)])
  moreover have "(1 - w) * y0 + w * y1 \<le> (1 - w) * u + w * u"
    by (rule convex_mono [OF assms(1,2,4,6)])
  ultimately show ?thesis by (simp add: algebra_simps)
qed

lemma convex_nonneg:
  fixes w :: real
  assumes "0 \<le> w" "w \<le> 1" "0 \<le> y0" "0 \<le> y1"
  shows "0 \<le> (1 - w) * y0 + w * y1"
  using assms by (intro add_nonneg_nonneg mult_nonneg_nonneg) simp_all

lemma surf_weight:
  assumes W: "well_posed p es"
    and lo: "TranShkGrid p ! 0 \<le> shk" and hi: "shk \<le> last (TranShkGrid p)"
  shows "0 \<le> (shk - TranShkGrid p ! (rseg (TranShkGrid p) shk - 1))
            / (TranShkGrid p ! rseg (TranShkGrid p) shk
                - TranShkGrid p ! (rseg (TranShkGrid p) shk - 1))
       \<and> (shk - TranShkGrid p ! (rseg (TranShkGrid p) shk - 1))
            / (TranShkGrid p ! rseg (TranShkGrid p) shk
                - TranShkGrid p ! (rseg (TranShkGrid p) shk - 1)) \<le> 1"
  by (rule rseg_weight_range [OF wp_grid_sorted [OF W] lo hi])

lemma surf_seg:
  assumes W: "well_posed p es"
  shows "rseg (TranShkGrid p) shk < length (TranShkGrid p)"
    and "rseg (TranShkGrid p) shk - 1 < length (TranShkGrid p)"
  using rseg_bounds [OF wp_grid_sorted(2) [OF W], of shk] wp_grid_sorted(2) [OF W] by linarith+

lemma surf_mono:
  assumes S: "solveConsLaborIntMarg p = Inr (Some s)" and W: "well_posed p es"
    and lo: "TranShkGrid p ! 0 \<le> shk" and hi: "shk \<le> last (TranShkGrid p)"
    and ys: "\<And>j. j < length (TranShkGrid p) \<Longrightarrow> sorted (ycol j)"
    and len: "\<And>j. length (ycol j) = Suc (aXtraCount p)"
    and b: "b1 \<le> b2"
  shows "surf p es ycol b1 shk \<le> surf p es ycol b2 shk"
proof -
  have n2: "2 \<le> length (xcolR p es k)" for k using wp_n [OF W] by simp
  have m: "lin (xcolR p es k) (ycol k) (b1 - bminR p shk)
      \<le> lin (xcolR p es k) (ycol k) (b2 - bminR p shk)" if "k < length (TranShkGrid p)" for k
    using b by (intro lin_mono [OF sorted_xcolR [OF S W that] ys [OF that] _ n2]) (simp_all add: len)
  show ?thesis
    unfolding surf_def Let_def
    using surf_weight [OF W lo hi] m [OF surf_seg(1) [OF W, of shk]] m [OF surf_seg(2) [OF W, of shk]]
    by (intro convex_mono) simp_all
qed

lemma lin_xcol_lower:
  assumes S: "solveConsLaborIntMarg p = Inr (Some s)" and W: "well_posed p es"
    and k: "k < length (TranShkGrid p)" and ys: "sorted ys"
    and len: "length ys = Suc (aXtraCount p)" and x: "0 \<le> x"
  shows "ys ! 0 \<le> lin (xcolR p es k) ys x"
proof -
  have n2: "2 \<le> length (xcolR p es k)" using wp_n [OF W] by simp
  have z: "xcolR p es k ! 0 = 0" by (simp add: xcolR_def)
  have "lin (xcolR p es k) ys (xcolR p es k ! 0) \<le> lin (xcolR p es k) ys x"
    using x by (intro lin_mono [OF sorted_xcolR [OF S W k] ys _ n2]) (simp_all add: len z)
  then show ?thesis
    by (simp only: lin_at_first [OF sorted_xcolR [OF S W k] n2])
qed

lemma surf_lower:
  assumes S: "solveConsLaborIntMarg p = Inr (Some s)" and W: "well_posed p es"
    and lo: "TranShkGrid p ! 0 \<le> shk" and hi: "shk \<le> last (TranShkGrid p)"
    and ys: "\<And>j. j < length (TranShkGrid p) \<Longrightarrow> sorted (ycol j)"
    and len: "\<And>j. length (ycol j) = Suc (aXtraCount p)"
    and z: "\<And>j. ycol j ! 0 = 0"
    and b: "bminR p shk \<le> b"
  shows "0 \<le> surf p es ycol b shk"
proof -
  have x: "0 \<le> b - bminR p shk" using b by simp
  have m: "0 \<le> lin (xcolR p es k) (ycol k) (b - bminR p shk)" if "k < length (TranShkGrid p)" for k
    using lin_xcol_lower [OF S W that ys [OF that] len x] by (simp add: z)
  show ?thesis
    unfolding surf_def Let_def
    using surf_weight [OF W lo hi] m [OF surf_seg(1) [OF W, of shk]] m [OF surf_seg(2) [OF W, of shk]]
    by (intro convex_nonneg) simp_all
qed

lemma surf_range:
  assumes S: "solveConsLaborIntMarg p = Inr (Some s)" and W: "well_posed p es"
    and lo: "TranShkGrid p ! 0 \<le> shk" and hi: "shk \<le> last (TranShkGrid p)"
    and ys: "\<And>j. \<forall>y \<in> set (ycol j). l \<le> y \<and> y \<le> u"
    and len: "\<And>j. length (ycol j) = Suc (aXtraCount p)"
    and b: "bminR p shk \<le> b"
    and x0: "b - bminR p shk \<le> last (xcolR p es (rseg (TranShkGrid p) shk - 1))"
    and x1: "b - bminR p shk \<le> last (xcolR p es (rseg (TranShkGrid p) shk))"
  shows "l \<le> surf p es ycol b shk \<and> surf p es ycol b shk \<le> u"
proof -
  have n2: "2 \<le> length (xcolR p es k)" for k using wp_n [OF W] by simp
  have z: "xcolR p es k ! 0 \<le> b - bminR p shk" for k using b by (simp add: xcolR_def)
  have m: "l \<le> lin (xcolR p es k) (ycol k) (b - bminR p shk)
      \<and> lin (xcolR p es k) (ycol k) (b - bminR p shk) \<le> u"
    if "k < length (TranShkGrid p)" "b - bminR p shk \<le> last (xcolR p es k)" for k
    by (rule lin_range [OF sorted_xcolR [OF S W that(1)] _ n2 z that(2) ys]) (simp add: len)
  show ?thesis
    unfolding surf_def Let_def
    using surf_weight [OF W lo hi] m [OF surf_seg(1) [OF W, of shk] x1]
      m [OF surf_seg(2) [OF W, of shk] x0]
    by (intro convex_range) simp_all
qed

lemma np_power_antitone:
  assumes "0 < rho" "0 \<le> v1" "v1 \<le> v2"
  shows "np_power (Fin v2) (- rho) \<le> np_power (Fin v1) (- rho)"
proof (cases "v1 = 0")
  case True
  then show ?thesis using assms by (simp add: real_pow_def)
next
  case False
  then have "v2 powr (- rho) \<le> v1 powr (- rho)"
    using assms by (intro powr_mono2') simp_all
  then show ?thesis using False assms by (simp add: real_pow_def)
qed

lemma solution_now_fields:
  "cFunc (solution_now p) = Some (cFuncNow p)" "LbrFunc (solution_now p) = Some (LbrFuncNow p)"
  "vPfunc (solution_now p) = Some (vPfuncNow p)" "bNrmMin (solution_now p) = Some (bNrmMinNow p)"
  by (simp_all add: solution_now_def)

section \<open>From valid inputs to a well-posed problem\<close>

text \<open>
  The end-of-period marginal values of valid inputs are finite, positive and non-increasing
  along the asset grid: expectations are sums with non-negative weights, and the marginal
  value of the next period is positive and non-increasing in balances.
\<close>

lemma foldl_plus_Fin: "foldl (+) (Fin a) (map Fin xs) = Fin (a + sum_list xs)"
  by (induction xs arbitrary: a) (simp_all add: add.assoc)

lemma np_sum_Fin: "np_sum (map Fin xs) = Fin (sum_list xs)"
  by (simp add: np_sum_def foldl_plus_Fin)

text \<open>Weighted sums: \<open>ts\<close> are the terms, \<open>ws\<close> the weights.\<close>

lemma wsum_nonneg:
  "list_all (\<lambda>t. 0 \<le> t) ts \<Longrightarrow> list_all (\<lambda>w. 0 \<le> w) ws \<Longrightarrow>
   0 \<le> sum_list (map2 (*) ts (ws :: real list))"
proof (induction ts arbitrary: ws)
  case Nil
  then show ?case by simp
next
  case (Cons t ts)
  then show ?case by (cases ws) simp_all
qed

lemma wsum_pos:
  "length ts = length ws \<Longrightarrow> list_all (\<lambda>t. 0 < t) ts \<Longrightarrow> list_all (\<lambda>w. 0 \<le> w) ws \<Longrightarrow>
   0 < sum_list ws \<Longrightarrow> 0 < sum_list (map2 (*) ts (ws :: real list))"
proof (induction ts arbitrary: ws)
  case Nil
  then show ?case by simp
next
  case (Cons t ts)
  then obtain w ws' where ws: "ws = w # ws'" by (cases ws) simp_all
  have t: "0 < t" and w: "0 \<le> w" using Cons.prems ws by simp_all
  have nn: "0 \<le> sum_list (map2 (*) ts ws')"
    using Cons.prems ws by (intro wsum_nonneg) (simp_all add: list_all_iff less_imp_le)
  show ?case
  proof (cases "w = 0")
    case True
    then have "0 < sum_list ws'" using Cons.prems(4) ws by simp
    then have "0 < sum_list (map2 (*) ts ws')"
      using Cons.prems ws by (intro Cons.IH) simp_all
    then show ?thesis using True ws by simp
  next
    case False
    then have "0 < t * w" using t w by simp
    then show ?thesis using nn ws by simp
  qed
qed

lemma wsum_mono:
  "length ts = length ts' \<Longrightarrow> (\<And>k. k < length ts \<Longrightarrow> ts ! k \<le> ts' ! k) \<Longrightarrow>
   list_all (\<lambda>w. 0 \<le> w) ws \<Longrightarrow>
   sum_list (map2 (*) ts ws) \<le> sum_list (map2 (*) ts' (ws :: real list))"
proof (induction ts ts' arbitrary: ws rule: list_induct2)
  case Nil
  then show ?case by simp
next
  case (Cons t ts t' ts')
  show ?case
  proof (cases ws)
    case Nil
    then show ?thesis by simp
  next
    case (Cons w ws')
    have "t \<le> t'" using Cons.prems(1) [of 0] by simp
    then have "t * w \<le> t' * w" using Cons.prems(2) Cons by (intro mult_right_mono) simp_all
    moreover have "sum_list (map2 (*) ts ws') \<le> sum_list (map2 (*) ts' ws')"
      using Cons.prems(1) [of "Suc k" for k] Cons.prems(2) Cons by (intro Cons.IH) simp_all
    ultimately show ?thesis using Cons by simp
  qed
qed

lemma map2_replicate: "length ys = k \<Longrightarrow> map2 f (replicate k c) ys = map (f c) ys"
  by (induction ys arbitrary: k) auto

lemma map2_times_Fin: "map2 (*) (map Fin xs) (map Fin ys) = map Fin (map2 (*) xs ys)"
proof (induction xs arbitrary: ys)
  case Nil
  then show ?case by simp
next
  case (Cons x xs)
  then show ?case by (cases ys) simp_all
qed

lemma strict_sorted_pos:
  assumes "sorted_wrt (<) xs" "0 < hd xs" "i < length xs"
  shows "0 < (xs ! i :: real)"
proof (cases i)
  case 0
  then show ?thesis using assms by (cases xs) simp_all
next
  case (Suc i')
  have "0 < xs ! 0" using assms by (cases xs) simp_all
  then show ?thesis using sorted_wrt_nth_less [of "(<)" xs 0 i] assms Suc by simp
qed

lemma vi_a_pos: "valid_inputs p v \<Longrightarrow> i < aXtraCount p \<Longrightarrow> 0 < aXtraGrid p ! i"
  by (rule strict_sorted_pos) (simp_all add: valid_inputs_def aXtraCount_def)

lemma vi_a_less:
  "valid_inputs p v \<Longrightarrow> i < k \<Longrightarrow> k < aXtraCount p \<Longrightarrow> aXtraGrid p ! i < aXtraGrid p ! k"
  using sorted_wrt_nth_less [of "(<)" "aXtraGrid p" i k]
  by (simp add: valid_inputs_def aXtraCount_def)

lemma vi_R: "valid_inputs p v \<Longrightarrow> 0 < Rfree p"
  by (simp add: valid_inputs_def)

lemma vi_next:
  "valid_inputs p v \<Longrightarrow> 0 < b \<Longrightarrow> shk \<in> set (snd (TranShkDstn p)) \<Longrightarrow>
   eval2 (vPfunc_next p) (Fin b) (Fin shk) = Fin (v b shk)"
  by (simp add: valid_inputs_def)

lemma vi_next_pos:
  "valid_inputs p v \<Longrightarrow> 0 < b \<Longrightarrow> shk \<in> set (snd (TranShkDstn p)) \<Longrightarrow> 0 < v b shk"
  by (simp add: valid_inputs_def)

lemma vi_next_mono: "valid_inputs p v \<Longrightarrow> 0 < b \<Longrightarrow> b \<le> b' \<Longrightarrow> v b' shk \<le> v b shk"
  by (simp add: valid_inputs_def)

lemma row_vPNext:
  assumes "i < aXtraCount p" "length (TranShkVals p) = TranShkCount p"
  shows "vPNext p ! i =
     map (\<lambda>shk. eval2 (vPfunc_next p) (Fin (Rfree p * aXtraGrid p ! i)) (Fin shk))
       (snd (TranShkDstn p))"
  using assms
  by (simp add: vPNext_def amap2_def amap_def bNext_def bNrmGrid_rep_def TranShkVals_rep_def
      tile_cols_def tile_rows_def aXtraCount_def TranShkCount_def TranShkVals_def
      map2_replicate comp_def)

lemma vPbarNext_nth:
  assumes S: "solveConsLaborIntMarg p = Inr (Some s)" and V: "valid_inputs p v"
    and i: "i < aXtraCount p"
  shows "vPbarNext p ! i = Fin (vbarR p v i)"
proof -
  have b: "0 < Rfree p * aXtraGrid p ! i" using vi_R [OF V] vi_a_pos [OF V i] by simp
  have "vPNext p ! i = map (\<lambda>shk. Fin (v (Rfree p * aXtraGrid p ! i) shk)) (snd (TranShkDstn p))"
    unfolding row_vPNext [OF i solve_SomeD(10) [OF S]]
    by (rule map_cong) (simp_all add: vi_next [OF V b])
  then have r: "vPNext p ! i = map Fin (map (v (Rfree p * aXtraGrid p ! i)) (snd (TranShkDstn p)))"
    by (simp add: comp_def)
  have "vPbarNext p ! i = np_sum (map2 (*) (vPNext p ! i) (TranShkPrbs p))"
    using i
    by (simp add: vPbarNext_def amap2_def TranShkPrbs_rep_def tile_rows_def vPNext_def amap_def
        bNext_def bNrmGrid_rep_def TranShkVals_rep_def tile_cols_def aXtraCount_def)
  then show ?thesis
    unfolding r TranShkPrbs_def map2_times_Fin np_sum_Fin vbarR_def .
qed

lemma vi_tran_lengths:
  assumes S: "solveConsLaborIntMarg p = Inr (Some s)"
  shows "length (snd (TranShkDstn p)) = length (fst (TranShkDstn p))"
  using solve_SomeD(10) [OF S] by (simp add: TranShkVals_def TranShkCount_def TranShkPrbs_def)

lemma vi_perm_lengths:
  assumes S: "solveConsLaborIntMarg p = Inr (Some s)"
  shows "length (snd (PermShkDstn p)) = length (fst (PermShkDstn p))"
  using solve_SomeD(11) [OF S] by (simp add: PermShkVals_def PermShkCount_def PermShkPrbs_def)

lemma vbarR_pos:
  assumes S: "solveConsLaborIntMarg p = Inr (Some s)" and V: "valid_inputs p v"
    and i: "i < aXtraCount p"
  shows "0 < vbarR p v i"
proof -
  have b: "0 < Rfree p * aXtraGrid p ! i" using vi_R [OF V] vi_a_pos [OF V i] by simp
  show ?thesis
    unfolding vbarR_def
  proof (rule wsum_pos)
    show "length (map (v (Rfree p * aXtraGrid p ! i)) (snd (TranShkDstn p)))
        = length (fst (TranShkDstn p))"
      using vi_tran_lengths [OF S] by simp
    show "list_all ((<) 0) (map (v (Rfree p * aXtraGrid p ! i)) (snd (TranShkDstn p)))"
      using vi_next_pos [OF V b] by (simp add: list_all_iff)
    show "list_all ((\<le>) 0) (fst (TranShkDstn p))" using V by (simp add: valid_inputs_def)
    show "0 < sum_list (fst (TranShkDstn p))" using V by (simp add: valid_inputs_def)
  qed
qed

lemma vbarR_mono:
  assumes V: "valid_inputs p v" and ik: "i \<le> k" and k: "k < aXtraCount p"
  shows "vbarR p v k \<le> vbarR p v i"
proof -
  have i: "i < aXtraCount p" using ik k by simp
  have b: "0 < Rfree p * aXtraGrid p ! i" using vi_R [OF V] vi_a_pos [OF V i] by simp
  have "aXtraGrid p ! i \<le> aXtraGrid p ! k"
    using vi_a_less [OF V, of i k] ik k by (cases "i = k") simp_all
  then have bb: "Rfree p * aXtraGrid p ! i \<le> Rfree p * aXtraGrid p ! k"
    using vi_R [OF V] by simp
  show ?thesis
    unfolding vbarR_def
  proof (rule wsum_mono)
    show "length (map (v (Rfree p * aXtraGrid p ! k)) (snd (TranShkDstn p)))
        = length (map (v (Rfree p * aXtraGrid p ! i)) (snd (TranShkDstn p)))"
      by simp
    show "list_all ((\<le>) 0) (fst (TranShkDstn p))" using V by (simp add: valid_inputs_def)
    fix t
    assume "t < length (map (v (Rfree p * aXtraGrid p ! k)) (snd (TranShkDstn p)))"
    then show "map (v (Rfree p * aXtraGrid p ! k)) (snd (TranShkDstn p)) ! t
        \<le> map (v (Rfree p * aXtraGrid p ! i)) (snd (TranShkDstn p)) ! t"
      using vi_next_mono [OF V b bb] by simp
  qed
qed

lemma vi_crra:
  assumes S: "solveConsLaborIntMarg p = Inr (Some s)" and V: "valid_inputs p v"
  shows "0 < CRRA p"
proof -
  have a: "0 < LbrCost p" using V by (simp add: valid_inputs_def)
  then have "0 < frac p * LbrCost p" by (simp add: frac_def)
  moreover have "frac p * LbrCost p < CRRA p" using V by (simp add: valid_inputs_def frac_def)
  ultimately show ?thesis by linarith
qed

lemma vPbarNvrsNext_Fin:
  assumes S: "solveConsLaborIntMarg p = Inr (Some s)" and V: "valid_inputs p v"
  shows "vPbarNvrsNext p = map Fin (map (\<lambda>i. uR p (vbarR p v i)) [0 ..< aXtraCount p])"
proof (rule nth_equalityI)
  have len: "length (vPbarNext p) = aXtraCount p"
    by (simp add: vPbarNext_def amap2_def TranShkPrbs_rep_def tile_rows_def vPNext_def amap_def
        bNext_def bNrmGrid_rep_def TranShkVals_rep_def tile_cols_def aXtraCount_def)
  show "length (vPbarNvrsNext p)
      = length (map Fin (map (\<lambda>i. uR p (vbarR p v i)) [0 ..< aXtraCount p]))"
    by (simp add: vPbarNvrsNext_def len)
  fix i
  assume "i < length (vPbarNvrsNext p)"
  then have i: "i < aXtraCount p" by (simp add: vPbarNvrsNext_def len)
  then show "vPbarNvrsNext p ! i
      = map Fin (map (\<lambda>i. uR p (vbarR p v i)) [0 ..< aXtraCount p]) ! i"
    using vbarR_pos [OF S V i]
    by (simp add: vPbarNvrsNext_def len vPbarNext_nth [OF S V i] uPinv_Fin)
qed

lemma column_bNext:
  assumes S: "solveConsLaborIntMarg p = Inr (Some s)"
  shows "column (bNext p) 0 = map Fin (map (\<lambda>a. Rfree p * a) (aXtraGrid p))"
proof -
  have "0 < TranShkCount p" using solve_SomeD(2,3) [OF S] by simp
  then show ?thesis
    by (simp add: column_def bNext_def amap_def bNrmGrid_rep_def tile_cols_def comp_def)
qed

lemma vPbarNvrsFuncNext_Fin:
  assumes S: "solveConsLaborIntMarg p = Inr (Some s)" and V: "valid_inputs p v"
  shows "vPbarNvrsFuncNext p = LinearInterp (map Fin (bgridR p)) (map Fin (ugridR p v))"
  by (simp add: vPbarNvrsFuncNext_def column_bNext [OF S] vPbarNvrsNext_Fin [OF S V]
      bgridR_def ugridR_def zero_npf_def)

lemma length_grids [simp]:
  "length (bgridR p) = Suc (aXtraCount p)" "length (ugridR p v) = Suc (aXtraCount p)"
  by (simp_all add: bgridR_def ugridR_def aXtraCount_def)

lemma vi_n: "valid_inputs p v \<Longrightarrow> 1 \<le> aXtraCount p"
  by (cases "aXtraGrid p") (simp_all add: valid_inputs_def aXtraCount_def)

lemma sorted_bgridR:
  assumes V: "valid_inputs p v"
  shows "sorted_wrt (<) (bgridR p)"
proof -
  have R: "0 < Rfree p" by (rule vi_R [OF V])
  have s: "sorted_wrt (<) (aXtraGrid p)" using V by (simp add: valid_inputs_def)
  have "sorted_wrt (<) (map (\<lambda>a. Rfree p * a) (aXtraGrid p))"
    using R by (simp add: sorted_wrt_map s)
  moreover have "\<forall>x \<in> set (aXtraGrid p). 0 < Rfree p * x"
  proof
    fix x
    assume "x \<in> set (aXtraGrid p)"
    then obtain i where "i < length (aXtraGrid p)" "x = aXtraGrid p ! i"
      by (auto simp add: in_set_conv_nth)
    then show "0 < Rfree p * x" using vi_a_pos [OF V, of i] R by (simp add: aXtraCount_def)
  qed
  ultimately show ?thesis by (simp add: bgridR_def)
qed

lemma sorted_ugridR:
  assumes S: "solveConsLaborIntMarg p = Inr (Some s)" and V: "valid_inputs p v"
  shows "sorted (ugridR p v)"
proof -
  have "sorted (map (\<lambda>i. uR p (vbarR p v i)) [0 ..< aXtraCount p])"
  proof (subst sorted_iff_nth_mono, intro allI impI)
    fix i k
    assume ik: "i \<le> k" and "k < length (map (\<lambda>i. uR p (vbarR p v i)) [0 ..< aXtraCount p])"
    then have k: "k < aXtraCount p" by simp
    then have i: "i < aXtraCount p" using ik by simp
    have "uR p (vbarR p v i) \<le> uR p (vbarR p v k)"
      by (rule uR_mono [OF vi_crra [OF S V] vbarR_pos [OF S V k] vbarR_mono [OF V ik k]])
    then show "map (\<lambda>i. uR p (vbarR p v i)) [0 ..< aXtraCount p] ! i
        \<le> map (\<lambda>i. uR p (vbarR p v i)) [0 ..< aXtraCount p] ! k"
      using i k by simp
  qed
  moreover have "\<forall>i \<in> set [0 ..< aXtraCount p]. 0 \<le> uR p (vbarR p v i)"
    by (simp add: uR_def)
  ultimately show ?thesis by (simp add: ugridR_def)
qed

text \<open>Past its first node, an interpolant that rises on its first segment is above its first value.\<close>

lemma lin_above_first:
  assumes xs: "sorted_wrt (<) xs" and ys: "sorted ys" and len: "length ys = length xs"
    and n: "2 \<le> length xs" and x: "xs ! 0 < x" and y: "ys ! 0 < ys ! 1"
  shows "ys ! 0 < lin xs ys x"
proof -
  let ?i = "rseg xs x"
  have b: "1 \<le> ?i" "?i \<le> length xs - 1" using rseg_bounds [OF n] by simp_all
  then have il: "?i < length xs" using n by simp
  have st: "xs ! (?i - 1) < xs ! ?i" by (rule strict_sorted_step [OF xs b(1) il])
  have sl: "0 \<le> (ys ! ?i - ys ! (?i - 1)) / (xs ! ?i - xs ! (?i - 1))"
    by (rule slope_nonneg [OF xs ys len b(1) il])
  have A: "lin xs ys x
      = ys ! (?i - 1) + (x - xs ! (?i - 1)) * ((ys ! ?i - ys ! (?i - 1)) / (xs ! ?i - xs ! (?i - 1)))"
    by (rule lin_affine)
  show ?thesis
  proof (cases "?i = 1")
    case True
    have "0 < (ys ! 1 - ys ! 0) / (xs ! 1 - xs ! 0)" using st y True by simp
    moreover have "0 < x - xs ! 0" using x by simp
    ultimately have "0 < (x - xs ! 0) * ((ys ! 1 - ys ! 0) / (xs ! 1 - xs ! 0))"
      by (rule mult_pos_pos [rotated])
    then show ?thesis using A True by simp
  next
    case False
    then have two: "2 \<le> ?i" using b(1) by simp
    have l: "xs ! (?i - 1) < x" by (rule rseg_left [OF strict_sorted_sorted [OF xs] n two])
    have "ys ! 1 \<le> ys ! (?i - 1)"
      using ys two il len by (intro sorted_nth_mono) simp_all
    moreover have "0 \<le> (x - xs ! (?i - 1)) * ((ys ! ?i - ys ! (?i - 1)) / (xs ! ?i - xs ! (?i - 1)))"
      using l sl by (intro mult_nonneg_nonneg) simp_all
    ultimately show ?thesis using A y by linarith
  qed
qed

lemma lin_grid_pos:
  assumes S: "solveConsLaborIntMarg p = Inr (Some s)" and V: "valid_inputs p v" and x: "0 < x"
  shows "0 < lin (bgridR p) (ugridR p v) x"
proof -
  have n: "1 \<le> aXtraCount p" by (rule vi_n [OF V])
  have "0 < uR p (vbarR p v 0)" using vbarR_pos [OF S V, of 0] n by (simp add: uR_pos)
  then have y: "ugridR p v ! 0 < ugridR p v ! 1" using n by (simp add: ugridR_def nth_Cons')
  have "ugridR p v ! 0 < lin (bgridR p) (ugridR p v) x"
    using n x by (intro lin_above_first sorted_bgridR [OF V] sorted_ugridR [OF S V] y)
      (simp_all add: bgridR_def aXtraCount_def)
  then show ?thesis by (simp add: ugridR_def)
qed

lemma lin_grid_mono:
  assumes S: "solveConsLaborIntMarg p = Inr (Some s)" and V: "valid_inputs p v" and x: "x1 \<le> x2"
  shows "lin (bgridR p) (ugridR p v) x1 \<le> lin (bgridR p) (ugridR p v) x2"
  using vi_n [OF V] x by (intro lin_mono sorted_bgridR [OF V] sorted_ugridR [OF S V]) simp_all

lemma eval_vPbarFuncNext:
  assumes S: "solveConsLaborIntMarg p = Inr (Some s)" and V: "valid_inputs p v" and x: "0 < x"
  shows "eval1 (vPbarFuncNext p) (Fin x)
     = Fin (lin (bgridR p) (ugridR p v) x powr (- CRRA p))"
proof -
  have "eval1 (vPbarNvrsFuncNext p) (Fin x) = Fin (lin (bgridR p) (ugridR p v) x)"
    unfolding vPbarNvrsFuncNext_Fin [OF S V] eval1.simps
    using vi_n [OF V] by (intro interp1_Fin sorted_bgridR [OF V]) simp_all
  then show ?thesis
    using lin_grid_pos [OF S V x]
    by (simp add: vPbarFuncNext_def CRRAutilityP_def np_power_pos del: np_power.simps)
qed

lemma map2_replicate_right: "length xs = k \<Longrightarrow> map2 f xs (replicate k c) = map (\<lambda>x. f x c) xs"
  by (induction xs arbitrary: k) auto

lemma map2_same: "map2 f (map g xs) (map h xs) = map (\<lambda>x. f (g x) (h x)) xs"
  by (induction xs) simp_all

lemma row_EndOfPrdvP_temp:
  assumes i: "i < aXtraCount p" and len: "length (PermShkVals p) = PermShkCount p"
  shows "EndOfPrdvP_temp p ! i =
     Fin (DiscFac p * Rfree p * LivPrb p)
       * np_sum (map2 (*)
           (map (\<lambda>s. np_power (Fin (PermGroFac p) * Fin s) (- CRRA p)
                   * eval1 (vPbarFuncNext p)
                       (Fin (Rfree p) / (Fin (PermGroFac p) * Fin s) * Fin (aXtraGrid p ! i)))
              (snd (PermShkDstn p)))
           (PermShkPrbs p))"
proof -
  have l: "length (snd (PermShkDstn p)) = PermShkCount p"
    using len by (simp add: PermShkVals_def)
  show ?thesis
    using i
    by (simp add: EndOfPrdvP_temp_def amap2_def amap_def PermShkVals_rep_def PermShkPrbs_rep_def
        bNextPerm_def aNrmGrid_rep_def tile_rows_def tile_cols_def aXtraCount_def
        PermShkVals_def map2_replicate_right l map2_same comp_def del: np_power.simps)
qed

lemma vi_perm_pos:
  "valid_inputs p v \<Longrightarrow> x \<in> set (snd (PermShkDstn p)) \<Longrightarrow> 0 < PermGroFac p * x"
  by (simp add: valid_inputs_def list_all_iff)

lemma esR_nth:
  "i < aXtraCount p \<Longrightarrow>
   esR p v ! i = DiscFac p * Rfree p * LivPrb p
     * sum_list (map2 (*) (map (esterm p v i) (snd (PermShkDstn p))) (fst (PermShkDstn p)))"
  by (simp add: esR_def)

lemma vi_perm_nz:
  assumes "valid_inputs p v" "x \<in> set (snd (PermShkDstn p))"
  shows "PermGroFac p \<noteq> 0" "x \<noteq> 0"
  using vi_perm_pos [OF assms] by auto

lemma bpermR_pos:
  assumes V: "valid_inputs p v" and i: "i < aXtraCount p" and x: "x \<in> set (snd (PermShkDstn p))"
  shows "0 < bpermR p i x"
proof -
  have "0 < Rfree p / (PermGroFac p * x)" using vi_perm_pos [OF V x] vi_R [OF V] by simp
  then show ?thesis unfolding bpermR_def by (rule mult_pos_pos [OF _ vi_a_pos [OF V i]])
qed

lemma EndOfPrdvP_temp_nth:
  assumes S: "solveConsLaborIntMarg p = Inr (Some s)" and V: "valid_inputs p v"
    and i: "i < aXtraCount p"
  shows "EndOfPrdvP_temp p ! i = Fin (esR p v ! i)"
proof -
  have "map (\<lambda>x. np_power (Fin (PermGroFac p) * Fin x) (- CRRA p)
                   * eval1 (vPbarFuncNext p)
                       (Fin (Rfree p) / (Fin (PermGroFac p) * Fin x) * Fin (aXtraGrid p ! i)))
              (snd (PermShkDstn p))
      = map (\<lambda>x. Fin (esterm p v i x)) (snd (PermShkDstn p))"
  proof (rule map_cong [OF refl])
    fix x
    assume x: "x \<in> set (snd (PermShkDstn p))"
    have g: "0 < PermGroFac p * x" by (rule vi_perm_pos [OF V x])
    have b: "0 < bpermR p i x" by (rule bpermR_pos [OF V i x])
    have q: "Fin (Rfree p) / (Fin (PermGroFac p) * Fin x) * Fin (aXtraGrid p ! i)
        = Fin (bpermR p i x)"
      using vi_perm_nz [OF V x] by (simp add: bpermR_def)
    have w: "np_power (Fin (PermGroFac p) * Fin x) (- CRRA p)
        = Fin ((PermGroFac p * x) powr (- CRRA p))"
      unfolding times_npf.simps by (rule np_power_pos [OF g])
    show "np_power (Fin (PermGroFac p) * Fin x) (- CRRA p)
          * eval1 (vPbarFuncNext p)
              (Fin (Rfree p) / (Fin (PermGroFac p) * Fin x) * Fin (aXtraGrid p ! i))
        = Fin (esterm p v i x)"
      unfolding q w eval_vPbarFuncNext [OF S V b] by (simp add: esterm_def)
  qed
  then show ?thesis
    unfolding row_EndOfPrdvP_temp [OF i solve_SomeD(11) [OF S]] esR_nth [OF i] PermShkPrbs_def
    by (simp add: map2_times_Fin np_sum_Fin comp_def
        map_map [of Fin "esterm p v i", unfolded comp_def, symmetric] del: map_map)
qed

lemma esterm_pos:
  assumes S: "solveConsLaborIntMarg p = Inr (Some s)" and V: "valid_inputs p v"
    and i: "i < aXtraCount p" and x: "x \<in> set (snd (PermShkDstn p))"
  shows "0 < esterm p v i x"
proof -
  have b: "0 < bpermR p i x" by (rule bpermR_pos [OF V i x])
  show ?thesis
    unfolding esterm_def using vi_perm_nz [OF V x] lin_grid_pos [OF S V b] by simp
qed

lemma esterm_mono:
  assumes S: "solveConsLaborIntMarg p = Inr (Some s)" and V: "valid_inputs p v"
    and ik: "i \<le> k" and k: "k < aXtraCount p" and x: "x \<in> set (snd (PermShkDstn p))"
  shows "esterm p v k x \<le> esterm p v i x"
proof -
  have i: "i < aXtraCount p" using ik k by simp
  have g: "0 < PermGroFac p * x" by (rule vi_perm_pos [OF V x])
  have r: "0 < Rfree p / (PermGroFac p * x)" using g vi_R [OF V] by simp
  have b: "0 < bpermR p i x" by (rule bpermR_pos [OF V i x])
  have "aXtraGrid p ! i \<le> aXtraGrid p ! k"
    using vi_a_less [OF V, of i k] ik k by (cases "i = k") simp_all
  then have bb: "bpermR p i x \<le> bpermR p k x"
    unfolding bpermR_def using r by (intro mult_left_mono) simp_all
  have "lin (bgridR p) (ugridR p v) (bpermR p k x) powr (- CRRA p)
      \<le> lin (bgridR p) (ugridR p v) (bpermR p i x) powr (- CRRA p)"
    using lin_grid_pos [OF S V b] lin_grid_mono [OF S V bb] vi_crra [OF S V]
    by (intro powr_mono2') simp_all
  then show ?thesis
    unfolding esterm_def by (intro mult_left_mono) simp_all
qed

lemma vi_probs:
  assumes "valid_inputs p v"
  shows "list_all ((\<le>) 0) (fst (PermShkDstn p))" "0 < sum_list (fst (PermShkDstn p))"
  using assms by (simp_all add: valid_inputs_def)

lemma vi_scale:
  assumes "valid_inputs p v"
  shows "0 < DiscFac p * Rfree p * LivPrb p"
  using assms by (simp add: valid_inputs_def)

lemma esR_pos:
  assumes S: "solveConsLaborIntMarg p = Inr (Some s)" and V: "valid_inputs p v"
    and i: "i < aXtraCount p"
  shows "0 < esR p v ! i"
proof -
  have "0 < sum_list (map2 (*) (map (esterm p v i) (snd (PermShkDstn p))) (fst (PermShkDstn p)))"
  proof (rule wsum_pos)
    show "length (map (esterm p v i) (snd (PermShkDstn p))) = length (fst (PermShkDstn p))"
      using vi_perm_lengths [OF S] by simp
    show "list_all ((<) 0) (map (esterm p v i) (snd (PermShkDstn p)))"
      using esterm_pos [OF S V i] by (simp add: list_all_iff)
  qed (rule vi_probs [OF V])+
  then show ?thesis unfolding esR_nth [OF i] using vi_scale [OF V] by simp
qed

lemma esR_mono:
  assumes S: "solveConsLaborIntMarg p = Inr (Some s)" and V: "valid_inputs p v"
    and ik: "i \<le> k" and k: "k < aXtraCount p"
  shows "esR p v ! k \<le> esR p v ! i"
proof -
  have i: "i < aXtraCount p" using ik k by simp
  have "sum_list (map2 (*) (map (esterm p v k) (snd (PermShkDstn p))) (fst (PermShkDstn p)))
      \<le> sum_list (map2 (*) (map (esterm p v i) (snd (PermShkDstn p))) (fst (PermShkDstn p)))"
  proof (rule wsum_mono)
    show "length (map (esterm p v k) (snd (PermShkDstn p)))
        = length (map (esterm p v i) (snd (PermShkDstn p)))"
      by simp
    show "list_all ((\<le>) 0) (fst (PermShkDstn p))" by (rule vi_probs [OF V])
    fix t
    assume "t < length (map (esterm p v k) (snd (PermShkDstn p)))"
    then show "map (esterm p v k) (snd (PermShkDstn p)) ! t
        \<le> map (esterm p v i) (snd (PermShkDstn p)) ! t"
      using esterm_mono [OF S V ik k] by simp
  qed
  then show ?thesis
    unfolding esR_nth [OF i] esR_nth [OF k] using vi_scale [OF V]
    by (intro mult_left_mono) simp_all
qed

lemma length_esR [simp]: "length (esR p v) = aXtraCount p"
  by (simp add: esR_def)

lemma valid_inputs_well_posed:
  assumes S: "solveConsLaborIntMarg p = Inr (Some s)" and V: "valid_inputs p v"
  shows "well_posed p (esR p v)"
proof -
  have n: "1 \<le> aXtraCount p" by (rule vi_n [OF V])
  have e: "EndOfPrdvP_temp p = map Fin (esR p v)"
    by (rule nth_equalityI) (simp_all add: length_EndOfPrdvP_temp EndOfPrdvP_temp_nth [OF S V])
  have m: "sorted (rev (esR p v))"
    unfolding sorted_rev_iff_nth_mono using esR_mono [OF S V] by simp
  have "esR p v \<noteq> []" using n by (simp add: esR_def)
  then have "last (esR p v) = esR p v ! (aXtraCount p - 1)" by (simp add: last_conv_nth)
  then have l: "0 < last (esR p v)" using esR_pos [OF S V, of "aXtraCount p - 1"] n by simp
  show ?thesis
    unfolding well_posed_def using V e m l by (simp add: valid_inputs_def)
qed

lemma seg01: "segment [Fin 0, Fin 1] x = 1"
  by (simp add: segment_def)

lemma ex_identity: "interp1 [Fin 0, Fin 1] [Fin 0, Fin 1] (Fin b) = Fin b"
  by (simp add: interp1_def seg01 weight_def blend_def minus_npf_def)

lemma ex_next_value:
  assumes "0 < b" "shk = 4 \<or> shk = 9"
  shows "eval2 (vPfunc_next example_args) (Fin b) (Fin shk) = Fin (1 / b)"
  using assms
  by (auto simp add: vPfunc_next_def example_next_def interp_on_interp_def ex_identity weight_def
      blend_def minus_npf_def CRRAutilityP_def real_pow_def powr_minus_divide)

lemma ex_valid_inputs: "valid_inputs example_args (\<lambda>b shk. 1 / b)"
  unfolding valid_inputs_def
  by (simp add: ex_next_value frac_le)

section \<open>The terminal arrays in real numbers, and the functions at their nodes\<close>

lemma bNrmGrid_term_Fin: "bNrmGrid_term ax = map Fin (bgridT ax)"
  by (simp add: bNrmGrid_term_def bgridT_def)

lemma bNrmGrid_term_nth: "i \<le> length ax \<Longrightarrow> bNrmGrid_term ax ! i = Fin (bgridT ax ! i)"
  by (cases i) (simp_all add: bNrmGrid_term_def bgridT_def)

lemma vt_b_pos:
  assumes "valid_terminal al w ax g" "0 < i" "i \<le> length ax"
  shows "0 < bgridT ax ! i"
proof -
  obtain k where k: "i = Suc k" using assms(2) by (cases i) simp_all
  have "0 < ax ! k"
    using assms k by (intro strict_sorted_pos) (simp_all add: valid_terminal_def)
  then show ?thesis by (simp add: bgridT_def k)
qed

lemma vt_b_nonneg:
  assumes "valid_terminal al w ax g" "i \<le> length ax"
  shows "0 \<le> bgridT ax ! i"
  using vt_b_pos [OF assms(1) _ assms(2)] by (cases "i = 0") (simp_all add: bgridT_def less_imp_le)

lemma vt_shk_pos:
  assumes "valid_terminal al w ax g" "0 < j" "j < length g"
  shows "0 < g ! j"
proof -
  have "0 \<le> g ! 0" using assms(1) by (cases g) (simp_all add: valid_terminal_def)
  moreover have "g ! 0 < g ! j"
    using sorted_wrt_nth_less [of "(<)" g 0 j] assms by (simp add: valid_terminal_def)
  ultimately show ?thesis by simp
qed

lemma vt_shk_nonneg:
  assumes "valid_terminal al w ax g" "j < length g"
  shows "0 \<le> g ! j"
proof (cases "j = 0")
  case True
  then show ?thesis using assms(1) by (cases g) (simp_all add: valid_terminal_def)
next
  case False
  then show ?thesis using vt_shk_pos [OF assms(1) _ assms(2)] by simp
qed

lemma entry_LsrTerm_Fin:
  assumes V: "valid_terminal al w ax g" and i: "i \<le> length ax" and j: "j < length g"
  shows "entry (LsrTerm al w ax g) i j = Fin (LsrTR al w ax g i j)"
proof (cases "i = 0 \<and> j = 0")
  case True
  then show ?thesis using entry_LsrTerm [OF i j, of al w] by (simp add: LsrTR_def)
next
  case False
  have al: "0 < al" and w: "0 < w" using V by (simp_all add: valid_terminal_def)
  have k: "0 < al / (1 + al)" using al by simp
  have b: "bNrmGrid_term ax ! i = Fin (bgridT ax ! i)"
    by (rule bNrmGrid_term_nth [OF i])
  show ?thesis
  proof (cases "g ! j = 0")
    case True
    then have "j = 0" using vt_shk_pos [OF V _ j] by (cases "j = 0") simp_all
    then have "0 < i" using False by simp
    then have "0 < bgridT ax ! i" by (rule vt_b_pos [OF V _ i])
    then show ?thesis
      using entry_LsrTerm [OF i j, of al w] False True k al
      by (simp add: LsrTerm_formula_def b LsrTR_def inf_of_sign_def)
  next
    case nz: False
    then have "w * g ! j \<noteq> 0" using w by simp
    then show ?thesis
      using entry_LsrTerm [OF i j, of al w] False nz
      by (auto simp add: LsrTerm_formula_def b LsrTR_def min_def)
  qed
qed

lemma LsrTR_range:
  assumes V: "valid_terminal al w ax g" and i: "i \<le> length ax" and j: "j < length g"
  shows "0 < LsrTR al w ax g i j \<and> LsrTR al w ax g i j \<le> 1"
proof -
  have al: "0 < al" and w: "0 < w" using V by (simp_all add: valid_terminal_def)
  have "0 \<le> bgridT ax ! i / (w * g ! j)"
    using vt_b_nonneg [OF V i] vt_shk_nonneg [OF V j] w by simp
  then have "0 < al / (1 + al) * (bgridT ax ! i / (w * g ! j) + 1)"
    using al by (intro mult_pos_pos) simp_all
  then show ?thesis by (simp add: LsrTR_def)
qed

lemma entry_LbrTerm_Fin:
  assumes V: "valid_terminal al w ax g" and i: "i \<le> length ax" and j: "j < length g"
  shows "entry (LbrTerm al w ax g) i j = Fin (LbrTR al w ax g i j)"
  by (simp add: entry_LbrTerm [OF i j] entry_LsrTerm_Fin [OF V i j] LbrTR_def minus_npf_def)

lemma entry_cNrmTerm_Fin:
  assumes V: "valid_terminal al w ax g" and i: "i \<le> length ax" and j: "j < length g"
  shows "entry (cNrmTerm al w ax g) i j = Fin (cTR al w ax g i j)"
  by (simp add: entry_cNrmTerm [OF i j] entry_LbrTerm_Fin [OF V i j] cTR_def
      bNrmGrid_term_nth [OF i])

lemma LbrTR_range:
  assumes V: "valid_terminal al w ax g" and i: "i \<le> length ax" and j: "j < length g"
  shows "0 \<le> LbrTR al w ax g i j \<and> LbrTR al w ax g i j \<le> 1"
  using LsrTR_range [OF V i j] by (simp add: LbrTR_def)

lemma cTR_lower:
  assumes V: "valid_terminal al w ax g" and i: "i \<le> length ax" and j: "j < length g"
  shows "bgridT ax ! i \<le> cTR al w ax g i j"
proof -
  have w: "0 < w" using V by (simp add: valid_terminal_def)
  have "0 \<le> LbrTR al w ax g i j * w * g ! j"
    using LbrTR_range [OF V i j] vt_shk_nonneg [OF V j] w by simp
  then show ?thesis by (simp add: cTR_def)
qed

lemma rseg_weight_nonneg:
  assumes xs: "sorted_wrt (<) xs" and n: "2 \<le> length xs" and lo: "xs ! 0 \<le> x"
  shows "0 \<le> (x - xs ! (rseg xs x - 1)) / (xs ! rseg xs x - xs ! (rseg xs x - 1))"
proof -
  let ?i = "rseg xs x"
  have b: "1 \<le> ?i" "?i < length xs"
    using rseg_bounds [OF n, of x] n by linarith+
  have st: "xs ! (?i - 1) < xs ! ?i" by (rule strict_sorted_step [OF xs b])
  have "xs ! (?i - 1) \<le> x"
  proof (cases "?i = 1")
    case True
    then show ?thesis using lo by simp
  next
    case False
    then have two: "2 \<le> ?i" using b(1) by simp
    show ?thesis by (rule less_imp_le [OF rseg_left [OF strict_sorted_sorted [OF xs] n two]])
  qed
  then show ?thesis using st by simp
qed

lemma bilinear_Fin:
  assumes xs: "sorted_wrt (<) xs" and ys: "sorted_wrt (<) ys"
    and n: "2 \<le> length xs" and m: "2 \<le> length ys"
    and sh: "shape F (length xs) (length ys)"
    and ent: "\<And>i j. i < length xs \<Longrightarrow> j < length ys \<Longrightarrow> entry F i j = Fin (r i j)"
  shows "bilinear F (map Fin xs) (map Fin ys) (Fin x) (Fin y) = Fin (bilinR r xs ys x y)"
proof -
  let ?i = "rseg xs x" and ?j = "rseg ys y"
  have ib: "1 \<le> ?i" "?i < length xs" using rseg_bounds [OF n, of x] n by linarith+
  have jb: "1 \<le> ?j" "?j < length ys" using rseg_bounds [OF m, of y] m by linarith+
  have i1: "?i - 1 < length xs" and j1: "?j - 1 < length ys" using ib jb by simp_all
  have sx: "xs ! (?i - 1) < xs ! ?i" by (rule strict_sorted_step [OF xs ib])
  have sy: "ys ! (?j - 1) < ys ! ?j" by (rule strict_sorted_step [OF ys jb])
  have rows: "\<not> (\<exists>row \<in> set F. length row \<noteq> length ys)"
    using sh by (auto simp add: shape_def in_set_conv_nth)
  have c: "\<not> (length (map Fin xs) < 2 \<or> length (map Fin ys) < 2
      \<or> length F \<noteq> length (map Fin xs) \<or> (\<exists>row \<in> set F. length row \<noteq> length (map Fin ys)))"
    using n m sh rows by (simp add: shape_def)
  have wx: "weight (map Fin xs) ?i (Fin x) = Fin ((x - xs ! (?i - 1)) / (xs ! ?i - xs ! (?i - 1)))"
    using ib i1 sx by (simp add: weight_def minus_npf_def)
  have wy: "weight (map Fin ys) ?j (Fin y) = Fin ((y - ys ! (?j - 1)) / (ys ! ?j - ys ! (?j - 1)))"
    using jb j1 sy by (simp add: weight_def minus_npf_def)
  have e: "F ! a ! b = Fin (r a b)" if "a < length xs" "b < length ys" for a b
    using ent [OF that] by (simp add: entry_def)
  have "bilinear F (map Fin xs) (map Fin ys) (Fin x) (Fin y)
      = blend (weight (map Fin xs) ?i (Fin x))
          (blend (weight (map Fin ys) ?j (Fin y)) (F ! (?i - 1) ! (?j - 1)) (F ! (?i - 1) ! ?j))
          (blend (weight (map Fin ys) ?j (Fin y)) (F ! ?i ! (?j - 1)) (F ! ?i ! ?j))"
    unfolding bilinear_def segment_Fin Let_def using c by (simp only: if_False)
  also have "\<dots> = Fin (bilinR r xs ys x y)"
    unfolding wx wy e [OF i1 j1] e [OF i1 jb(2)] e [OF ib(2) j1] e [OF ib(2) jb(2)]
    by (simp add: blend_def minus_npf_def bilinR_def Let_def)
  finally show ?thesis .
qed

lemma bilinR_range:
  assumes xs: "sorted_wrt (<) xs" and ys: "sorted_wrt (<) ys"
    and n: "2 \<le> length xs" and m: "2 \<le> length ys"
    and x: "xs ! 0 \<le> x" "x \<le> last xs" and y: "ys ! 0 \<le> y" "y \<le> last ys"
    and r: "\<And>i j. i < length xs \<Longrightarrow> j < length ys \<Longrightarrow> l \<le> r i j \<and> r i j \<le> u"
  shows "l \<le> bilinR r xs ys x y \<and> bilinR r xs ys x y \<le> u"
proof -
  let ?i = "rseg xs x" and ?j = "rseg ys y"
  have ib: "1 \<le> ?i" "?i < length xs" using rseg_bounds [OF n, of x] n by linarith+
  have jb: "1 \<le> ?j" "?j < length ys" using rseg_bounds [OF m, of y] m by linarith+
  have i1: "?i - 1 < length xs" and j1: "?j - 1 < length ys" using ib jb by simp_all
  note wx = rseg_weight_range [OF xs n x]
  note wy = rseg_weight_range [OF ys m y]
  have A: "l \<le> (1 - (y - ys ! (?j - 1)) / (ys ! ?j - ys ! (?j - 1))) * r (?i - 1) (?j - 1)
        + (y - ys ! (?j - 1)) / (ys ! ?j - ys ! (?j - 1)) * r (?i - 1) ?j
      \<and> (1 - (y - ys ! (?j - 1)) / (ys ! ?j - ys ! (?j - 1))) * r (?i - 1) (?j - 1)
        + (y - ys ! (?j - 1)) / (ys ! ?j - ys ! (?j - 1)) * r (?i - 1) ?j \<le> u"
    using wy r [OF i1 j1] r [OF i1 jb(2)] by (intro convex_range) simp_all
  have B: "l \<le> (1 - (y - ys ! (?j - 1)) / (ys ! ?j - ys ! (?j - 1))) * r ?i (?j - 1)
        + (y - ys ! (?j - 1)) / (ys ! ?j - ys ! (?j - 1)) * r ?i ?j
      \<and> (1 - (y - ys ! (?j - 1)) / (ys ! ?j - ys ! (?j - 1))) * r ?i (?j - 1)
        + (y - ys ! (?j - 1)) / (ys ! ?j - ys ! (?j - 1)) * r ?i ?j \<le> u"
    using wy r [OF ib(2) j1] r [OF ib(2) jb(2)] by (intro convex_range) simp_all
  show ?thesis
    unfolding bilinR_def Let_def using wx A B by (intro convex_range) simp_all
qed

text \<open>
  A bilinear interpolant is at least 0 at and beyond its first node in \<open>x\<close>, for \<open>y\<close> within
  the grid, when its values are at least 0 and do not fall along \<open>x\<close>.
\<close>

lemma bilinR_lower:
  assumes xs: "sorted_wrt (<) xs" and ys: "sorted_wrt (<) ys"
    and n: "2 \<le> length xs" and m: "2 \<le> length ys"
    and x: "xs ! 0 \<le> x" and y: "ys ! 0 \<le> y" "y \<le> last ys"
    and r: "\<And>i j. i < length xs \<Longrightarrow> j < length ys \<Longrightarrow> 0 \<le> r i j"
    and up: "\<And>i j. 1 \<le> i \<Longrightarrow> i < length xs \<Longrightarrow> j < length ys \<Longrightarrow> r (i - 1) j \<le> r i j"
  shows "0 \<le> bilinR r xs ys x y"
proof -
  let ?i = "rseg xs x" and ?j = "rseg ys y"
  define wx where "wx = (x - xs ! (?i - 1)) / (xs ! ?i - xs ! (?i - 1))"
  define wy where "wy = (y - ys ! (?j - 1)) / (ys ! ?j - ys ! (?j - 1))"
  have ib: "1 \<le> ?i" "?i < length xs" using rseg_bounds [OF n, of x] n by linarith+
  have jb: "1 \<le> ?j" "?j < length ys" using rseg_bounds [OF m, of y] m by linarith+
  have i1: "?i - 1 < length xs" and j1: "?j - 1 < length ys" using ib jb by simp_all
  have wx0: "0 \<le> wx" unfolding wx_def by (rule rseg_weight_nonneg [OF xs n x])
  have wy01: "0 \<le> wy" "wy \<le> 1" unfolding wy_def using rseg_weight_range [OF ys m y] by simp_all
  have col: "0 \<le> r (?i - 1) j + wx * (r ?i j - r (?i - 1) j)" if "j < length ys" for j
  proof -
    have "0 \<le> wx * (r ?i j - r (?i - 1) j)"
      using wx0 up [OF ib that] by (intro mult_nonneg_nonneg) simp_all
    then show ?thesis using r [OF i1 that] by linarith
  qed
  have "bilinR r xs ys x y
      = (1 - wy) * (r (?i - 1) (?j - 1) + wx * (r ?i (?j - 1) - r (?i - 1) (?j - 1)))
        + wy * (r (?i - 1) ?j + wx * (r ?i ?j - r (?i - 1) ?j))"
    unfolding bilinR_def Let_def wx_def [symmetric] wy_def [symmetric] by (simp add: algebra_simps)
  also have "0 \<le> \<dots>" by (rule convex_nonneg [OF wy01 col [OF j1] col [OF jb(2)]])
  finally show ?thesis .
qed

lemma clamp_step:
  fixes k u b b' :: real
  assumes k: "0 < k" "k < 1" and b: "b \<le> b'"
  shows "min (k * (b' + u)) u - min (k * (b + u)) u \<le> b' - b"
proof -
  have kb: "k * b \<le> k * b'" using k(1) b by simp
  have "k * b' - k * b \<le> b' - b"
  proof -
    have "0 \<le> (1 - k) * (b' - b)" using k(2) b by (intro mult_nonneg_nonneg) simp_all
    then show ?thesis by (simp add: algebra_simps)
  qed
  then show ?thesis using kb by (simp add: min_def algebra_simps) 
qed

lemma vt_b_mono:
  assumes V: "valid_terminal al w ax g" and i: "1 \<le> i" "i \<le> length ax"
  shows "bgridT ax ! (i - 1) \<le> bgridT ax ! i"
proof (cases "i = 1")
  case True
  then show ?thesis using vt_b_pos [OF V _ i(2)] by (simp add: bgridT_def)
next
  case False
  then obtain k where k: "i = Suc (Suc k)" using i(1) by (cases i) (auto simp add: gr0_conv_Suc)
  have "ax ! k < ax ! Suc k"
    using sorted_wrt_nth_less [of "(<)" ax k "Suc k"] V i(2) k by (simp add: valid_terminal_def)
  then show ?thesis by (simp add: bgridT_def k)
qed

lemma cTR_clamp:
  assumes V: "valid_terminal al w ax g" and i: "i \<le> length ax" and j: "j < length g"
    and ns: "\<not> (i = 0 \<and> j = 0)" and shk: "0 < g ! j"
  shows "cTR al w ax g i j
     = bgridT ax ! i + w * g ! j - min (al / (1 + al) * (bgridT ax ! i + w * g ! j)) (w * g ! j)"
proof -
  have w: "0 < w * g ! j" using V shk by (simp add: valid_terminal_def)
  define u where "u = w * g ! j"
  define b where "b = bgridT ax ! i"
  define k where "k = al / (1 + al)"
  have u: "0 < u" using w by (simp add: u_def)
  have "min (k * (b / u + 1)) 1 * u = min (k * (b + u)) u"
  proof -
    have e: "k * (b / u + 1) * u = k * (b + u)" using u by (simp add: field_simps)
    show ?thesis
    proof (cases "k * (b / u + 1) \<le> 1")
      case True
      then have "k * (b / u + 1) * u \<le> 1 * u" using u by (intro mult_right_mono) simp_all
      then show ?thesis using True e by (simp add: min_def)
    next
      case False
      then have "1 * u < k * (b / u + 1) * u" using u by (intro mult_strict_right_mono) simp_all
      then show ?thesis using False e by (simp add: min_def)
    qed
  qed
  then have "b + (1 - min (k * (b / u + 1)) 1) * u = b + u - min (k * (b + u)) u"
    by (simp add: algebra_simps)
  then show ?thesis
    using ns shk by (auto simp add: cTR_def LbrTR_def LsrTR_def u_def b_def k_def mult.assoc)
qed

lemma cTR_mono:
  assumes V: "valid_terminal al w ax g" and i: "1 \<le> i" "i \<le> length ax" and j: "j < length g"
  shows "cTR al w ax g (i - 1) j \<le> cTR al w ax g i j"
proof -
  have al: "0 < al" using V by (simp add: valid_terminal_def)
  have i1: "i - 1 \<le> length ax" using i by simp
  have bb: "bgridT ax ! (i - 1) \<le> bgridT ax ! i" by (rule vt_b_mono [OF V i])
  consider "g ! j = 0" | "0 < g ! j" "i - 1 = 0 \<and> j = 0" | "0 < g ! j" "\<not> (i - 1 = 0 \<and> j = 0)"
    using vt_shk_nonneg [OF V j] by fastforce
  then show ?thesis
  proof cases
    case 1
    then show ?thesis using bb by (simp add: cTR_def)
  next
    case 2
    then have "cTR al w ax g (i - 1) j = 0" by (simp add: cTR_def LbrTR_def LsrTR_def bgridT_def)
    then show ?thesis using cTR_lower [OF V i(2) j] vt_b_nonneg [OF V i(2)] by simp
  next
    case 3
    have ns: "\<not> (i = 0 \<and> j = 0)" using i(1) by simp
    have k: "0 < al / (1 + al)" "al / (1 + al) < 1" using al by simp_all
    show ?thesis
      unfolding cTR_clamp [OF V i1 j 3(2) 3(1)] cTR_clamp [OF V i(2) j ns 3(1)]
      using clamp_step [OF k bb, of "w * g ! j"] by simp
  qed
qed

lemma length_bgridT [simp]: "length (bgridT ax) = Suc (length ax)"
  by (simp add: bgridT_def)

lemma sorted_bgridT:
  assumes V: "valid_terminal al w ax g"
  shows "sorted_wrt (<) (bgridT ax)"
proof -
  have "\<forall>x \<in> set ax. 0 < x"
  proof
    fix x
    assume "x \<in> set ax"
    then obtain i where "i < length ax" "x = ax ! i" by (auto simp add: in_set_conv_nth)
    then show "0 < x" using V by (simp add: strict_sorted_pos valid_terminal_def)
  qed
  then show ?thesis using V by (simp add: bgridT_def valid_terminal_def)
qed

lemma vt_grids:
  assumes V: "valid_terminal al w ax g"
  shows "sorted_wrt (<) g" "2 \<le> length g" "2 \<le> length (bgridT ax)"
  using V by (cases ax; simp add: valid_terminal_def)+

lemma eval_LbrFunc_terminal:
  assumes V: "valid_terminal al w ax g"
  shows "eval2 (BilinearInterp (LbrTerm al w ax g) (bNrmGrid_term ax) (map Fin g)) (Fin b) (Fin shk)
     = Fin (bilinR (LbrTR al w ax g) (bgridT ax) g b shk)"
  unfolding eval2.simps bNrmGrid_term_Fin
  using shape_LbrTerm [of al w ax g]
  by (intro bilinear_Fin sorted_bgridT [OF V] vt_grids [OF V])
     (simp_all add: entry_LbrTerm_Fin [OF V])

lemma eval_cFunc_terminal:
  assumes V: "valid_terminal al w ax g"
  shows "eval2 (BilinearInterp (cNrmTerm al w ax g) (bNrmGrid_term ax) (map Fin g)) (Fin b) (Fin shk)
     = Fin (bilinR (cTR al w ax g) (bgridT ax) g b shk)"
proof -
  have sh: "shape (cNrmTerm al w ax g) (Suc (length ax)) (length g)"
    unfolding cNrmTerm_def
    by (intro shape_amap2 shape_amap shape_bNrmGridTerm shape_TranShkGridTerm shape_LbrTerm)
  show ?thesis
    unfolding eval2.simps bNrmGrid_term_Fin
    using sh
    by (intro bilinear_Fin sorted_bgridT [OF V] vt_grids [OF V])
       (simp_all add: entry_cNrmTerm_Fin [OF V])
qed

lemma terminal_labor_range:
  assumes V: "valid_terminal al w ax g"
    and b: "0 \<le> b" "b \<le> last ax" and shk: "g ! 0 \<le> shk" "shk \<le> last g"
  shows "Fin 0 \<le> eval2 (BilinearInterp (LbrTerm al w ax g) (bNrmGrid_term ax) (map Fin g)) (Fin b) (Fin shk)
    \<and> eval2 (BilinearInterp (LbrTerm al w ax g) (bNrmGrid_term ax) (map Fin g)) (Fin b) (Fin shk) \<le> Fin 1"
proof -
  have ne: "ax \<noteq> []" using V by (simp add: valid_terminal_def)
  have "0 \<le> bilinR (LbrTR al w ax g) (bgridT ax) g b shk
      \<and> bilinR (LbrTR al w ax g) (bgridT ax) g b shk \<le> 1"
    using b shk ne
    by (intro bilinR_range sorted_bgridT [OF V] vt_grids [OF V] LbrTR_range [OF V])
       (simp_all add: bgridT_def)
  then show ?thesis unfolding eval_LbrFunc_terminal [OF V] by simp
qed

lemma terminal_consumption_nonneg:
  assumes V: "valid_terminal al w ax g"
    and b: "0 \<le> b" and shk: "g ! 0 \<le> shk" "shk \<le> last g"
  shows "Fin 0 \<le> eval2 (BilinearInterp (cNrmTerm al w ax g) (bNrmGrid_term ax) (map Fin g)) (Fin b) (Fin shk)"
proof -
  have nn: "0 \<le> cTR al w ax g i j" if "i < length (bgridT ax)" "j < length g" for i j
  proof -
    have i: "i \<le> length ax" using that(1) by simp
    show ?thesis using cTR_lower [OF V i that(2)] vt_b_nonneg [OF V i] by simp
  qed
  have "0 \<le> bilinR (cTR al w ax g) (bgridT ax) g b shk"
    using b shk
    by (intro bilinR_lower sorted_bgridT [OF V] vt_grids [OF V] nn cTR_mono [OF V])
       (simp_all add: bgridT_def)
  then show ?thesis unfolding eval_cFunc_terminal [OF V] by simp
qed

lemmas bilinear_eval = bilinear_def segment_def weight_def blend_def minus_npf_def inf_of_sign_def

lemma ex_LbrTerm: "LbrTerm 1 1 [1] [1, 2] = [[Fin 0, Fin (1/2)], [Fin 0, Fin (1/4)]]"
  by (simp add: LbrTerm_def LsrTerm_def LsrTerm_formula_def bNrmGridTerm_def TranShkGridTerm_def
      bNrmGrid_term_def tile_cols_def tile_rows_def amap_def amap2_def set_entry00_def
      minus_npf_def numeral_2_eq_2)

lemma ex_cNrmTerm: "cNrmTerm 1 1 [1] [1, 2] = [[Fin 0, Fin 1], [Fin 1, Fin (3/2)]]"
  by (simp add: cNrmTerm_def ex_LbrTerm bNrmGridTerm_def TranShkGridTerm_def
      bNrmGrid_term_def tile_cols_def tile_rows_def amap_def amap2_def numeral_2_eq_2)

lemma ex_terminal_labor:
  "eval2 (BilinearInterp (LbrTerm 1 1 [1] [1, 2]) (bNrmGrid_term [1]) (map Fin [1, 2])) (Fin 3) (Fin 2)
     = Fin (- 1/4)"
  by (simp add: ex_LbrTerm bNrmGrid_term_def bilinear_eval)

lemma ex_terminal_consumption:
  "eval2 (BilinearInterp (cNrmTerm 1 1 [1] [1, 2]) (bNrmGrid_term [1]) (map Fin [1, 2])) (Fin (1/2)) (Fin 0)
     = Fin (- 1/4)"
  by (simp add: ex_cNrmTerm bNrmGrid_term_def bilinear_eval)

lemma ex_valid_terminal: "valid_terminal 1 1 [1] [1, 2]"
  by (simp add: valid_terminal_def)

lemma ex_bmin34: "eval1 (bNrmMinNow example_args) (Fin 34) = Fin (-34)"
  by (simp add: ex_bNrmMinNow interp_eval)

lemma ex_c_166_34: "eval2 (cFuncNow example_args) (Fin 166) (Fin 34) = Fin (- 39/7)"
  by (simp add: ex_cFuncNow interp_eval)

lemma count_below_node:
  assumes xs: "sorted_wrt (<) (xs :: real list)" and k: "k < length xs"
  shows "length (filter (\<lambda>v. v < xs ! k) xs) = k"
proof -
  let ?c = "length (filter (\<lambda>v. v < xs ! k) xs)"
  have sx: "sorted xs" by (rule strict_sorted_sorted [OF xs])
  have "\<not> k < ?c" using count_below_sorted [OF sx k, of "xs ! k"] by simp
  moreover have "\<not> ?c < k"
  proof
    assume c: "?c < k"
    then have cl: "?c < length xs" using k by simp
    have "xs ! ?c < xs ! k" using sorted_wrt_nth_less [OF xs c k] .
    then show False using count_below_sorted [OF sx cl, of "xs ! k"] by simp
  qed
  ultimately show ?thesis by simp
qed

lemma rseg_at_node:
  assumes "sorted_wrt (<) xs" "k < length xs"
  shows "rseg xs (xs ! k) = max k 1"
  using assms(2) by (simp add: rseg_def count_below_node [OF assms])

lemma lin_at_node:
  assumes xs: "sorted_wrt (<) xs" and k: "k < length xs"
  shows "lin xs ys (xs ! k) = ys ! k"
proof (cases k)
  case 0
  then show ?thesis using rseg_at_node [OF xs k] by (simp add: lin_def)
next
  case (Suc k')
  have "xs ! k' < xs ! Suc k'" using sorted_wrt_nth_less [OF xs, of k' "Suc k'"] k Suc by simp
  then show ?thesis using Suc rseg_at_node [OF xs k] by (simp add: lin_def)
qed

lemma bilinR_at_node:
  assumes xs: "sorted_wrt (<) xs" and ys: "sorted_wrt (<) ys"
    and i: "i < length xs" and j: "j < length ys"
  shows "bilinR r xs ys (xs ! i) (ys ! j) = r i j"
proof -
  have wx: "(xs ! i - xs ! (max i 1 - 1)) / (xs ! max i 1 - xs ! (max i 1 - 1))
      = (if i = 0 then 0 else 1)"
  proof (cases i)
    case 0
    then show ?thesis by simp
  next
    case (Suc i')
    have "xs ! i' < xs ! Suc i'" using sorted_wrt_nth_less [OF xs, of i' "Suc i'"] i Suc by simp
    then show ?thesis using Suc by simp
  qed
  have wy: "(ys ! j - ys ! (max j 1 - 1)) / (ys ! max j 1 - ys ! (max j 1 - 1))
      = (if j = 0 then 0 else 1)"
  proof (cases j)
    case 0
    then show ?thesis by simp
  next
    case (Suc j')
    have "ys ! j' < ys ! Suc j'" using sorted_wrt_nth_less [OF ys, of j' "Suc j'"] j Suc by simp
    then show ?thesis using Suc by simp
  qed
  show ?thesis
    unfolding bilinR_def Let_def rseg_at_node [OF xs i] rseg_at_node [OF ys j] wx wy
    by (cases i; cases j) simp_all
qed

text \<open>The surface of the one-period solver at a gridpoint of column \<open>j\<close>.\<close>

lemma bminR_at_node:
  assumes W: "well_posed p es" and j: "j < length (TranShkGrid p)"
  shows "bminR p (TranShkGrid p ! j) = - (WageRte p * TranShkGrid p ! j)"
  unfolding bminR_def using j by (simp add: lin_at_node [OF wp_grid_sorted(1) [OF W] j])

lemma surf_at_node:
  assumes S: "solveConsLaborIntMarg p = Inr (Some s)" and W: "well_posed p es"
    and j: "j < length (TranShkGrid p)" and k: "k \<le> aXtraCount p"
  shows "surf p es ycol (xcolR p es j ! k - WageRte p * TranShkGrid p ! j) (TranShkGrid p ! j)
     = ycol j ! k"
proof -
  let ?g = "TranShkGrid p"
  have kl: "k < length (xcolR p es j)" using k by simp
  have x: "xcolR p es j ! k - WageRte p * ?g ! j - bminR p (?g ! j) = xcolR p es j ! k"
    by (simp add: bminR_at_node [OF W j])
  have l: "lin (xcolR p es j) (ycol j) (xcolR p es j ! k) = ycol j ! k"
    by (rule lin_at_node [OF sorted_xcolR [OF S W j] kl])
  show ?thesis
  proof (cases j)
    case 0
    then show ?thesis
      using l unfolding surf_def Let_def x rseg_at_node [OF wp_grid_sorted(1) [OF W] j]
      by simp
  next
    case (Suc j')
    have "?g ! j' < ?g ! Suc j'"
      using sorted_wrt_nth_less [OF wp_grid_sorted(1) [OF W], of j' "Suc j'"] j Suc by simp
    then show ?thesis
      using l Suc unfolding surf_def Let_def x rseg_at_node [OF wp_grid_sorted(1) [OF W] j]
      by simp
  qed
qed

lemma xcolR_Suc:
  "i < aXtraCount p \<Longrightarrow>
   xcolR p es j ! Suc i
     = bR p (aXtraGrid p ! i) (es ! i) (TranShkGrid p ! j) j + WageRte p * TranShkGrid p ! j"
  by (simp add: xcolR_def)

lemma uR_round_trip:
  assumes "0 < e" "CRRA p \<noteq> 0"
  shows "uR p e powr (- CRRA p) = e"
  using assms by (simp add: uR_def powr_powr)

lemma gridpoint_round_trip:
  assumes S: "solveConsLaborIntMarg p = Inr (Some s)" and W: "well_posed p es"
    and i: "i < aXtraCount p" and j: "j < length (TranShkGrid p)"
  shows "eval2 (vPnvrsFuncNow p) (entry (bNowArray p) (Suc i) j) (Fin (TranShkGrid p ! j))
       = uPinv p (EndOfPrdvP_temp p ! i)"
    and "eval2 (vPfuncNow p) (entry (bNowArray p) (Suc i) j) (Fin (TranShkGrid p ! j))
       = EndOfPrdvP_temp p ! i"
proof -
  let ?shk = "TranShkGrid p ! j"
  let ?b = "bR p (aXtraGrid p ! i) (es ! i) ?shk j"
  have e: "0 < es ! i" by (rule wp_es_pos [OF W i])
  have b: "entry (bNowArray p) (Suc i) j = Fin ?b"
    by (simp add: bNowArray_def entry_Cons_Suc final_entries(3) [OF S W i j])
  have x: "?b = xcolR p es j ! Suc i - WageRte p * ?shk" by (simp add: xcolR_Suc [OF i])
  have nn: "xcolR p es j ! 0 \<le> xcolR p es j ! Suc i"
    using sorted_wrt_nth_less [OF sorted_xcolR [OF S W j], of 0 "Suc i"] i by simp
  have m: "bminR p ?shk \<le> ?b"
    using nn unfolding x bminR_at_node [OF W j] by (simp add: xcolR_def)
  have v: "surf p es (vcolR p es) ?b ?shk = uR p (es ! i)"
    unfolding x using i
    by (simp add: surf_at_node [OF S W j] vcolR_def)
  show n: "eval2 (vPnvrsFuncNow p) (entry (bNowArray p) (Suc i) j) (Fin ?shk)
       = uPinv p (EndOfPrdvP_temp p ! i)"
    unfolding b eval_vPnvrsFuncNow [OF S W m] v wp_es_nth [OF W i] uPinv_Fin [OF e] ..
  have "eval2 (vPfuncNow p) (entry (bNowArray p) (Suc i) j) (Fin ?shk)
      = CRRAutilityP (Fin (uR p (es ! i))) (CRRA p)"
    unfolding vPfuncNow_def eval2.simps n wp_es_nth [OF W i] uPinv_Fin [OF e] ..
  also have "\<dots> = Fin (es ! i)"
    using uR_pos [OF e, of p] uR_round_trip [OF e solve_SomeD(6) [OF S]]
    by (simp add: CRRAutilityP_def np_power_pos del: np_power.simps)
  finally show "eval2 (vPfuncNow p) (entry (bNowArray p) (Suc i) j) (Fin ?shk)
       = EndOfPrdvP_temp p ! i"
    by (simp add: wp_es_nth [OF W i])
qed

lemma shape_cNrmTerm: "shape (cNrmTerm al w ax g) (Suc (length ax)) (length g)"
  unfolding cNrmTerm_def
  by (intro shape_amap2 shape_amap shape_bNrmGridTerm shape_TranShkGridTerm shape_LbrTerm)

lemma shape_xEffTerm: "shape (xEffTerm al w ax g) (Suc (length ax)) (length g)"
  unfolding xEffTerm_def by (intro shape_amap2 shape_amap shape_LsrTerm shape_cNrmTerm)

lemma shape_vPterm: "shape (vPterm rho al w ax g) (Suc (length ax)) (length g)"
  unfolding vPterm_def by (intro shape_amap2 shape_amap shape_LsrTerm shape_xEffTerm)

lemma shape_vPnvrsTerm: "shape (vPnvrsTerm rho al w ax g) (Suc (length ax)) (length g)"
  unfolding vPnvrsTerm_def by (intro shape_amap shape_vPterm)

lemma entry_xEffTerm:
  assumes "i \<le> length ax" "j < length g"
  shows "entry (xEffTerm al w ax g) i j
     = np_power (entry (LsrTerm al w ax g) i j) al * entry (cNrmTerm al w ax g) i j"
proof -
  have P: "shape (amap (\<lambda>z. np_power z al) (LsrTerm al w ax g)) (Suc (length ax)) (length g)"
    by (intro shape_amap shape_LsrTerm)
  show ?thesis
    unfolding xEffTerm_def using assms
    by (simp add: entry_amap2 [OF P shape_cNrmTerm] entry_amap [OF shape_LsrTerm]
        del: np_power.simps)
qed

lemma entry_vPterm:
  assumes "i \<le> length ax" "j < length g"
  shows "entry (vPterm rho al w ax g) i j
     = np_power (entry (LsrTerm al w ax g) i j) al
         * CRRAutilityP (entry (xEffTerm al w ax g) i j) rho"
proof -
  have P: "shape (amap (\<lambda>z. np_power z al) (LsrTerm al w ax g)) (Suc (length ax)) (length g)"
    by (intro shape_amap shape_LsrTerm)
  have Q: "shape (amap (\<lambda>x. CRRAutilityP x rho) (xEffTerm al w ax g)) (Suc (length ax)) (length g)"
    by (intro shape_amap shape_xEffTerm)
  show ?thesis
    unfolding vPterm_def using assms
    by (simp add: entry_amap2 [OF P Q] entry_amap [OF shape_LsrTerm]
        entry_amap [OF shape_xEffTerm] del: np_power.simps)
qed

lemma entry_vPnvrsTerm:
  assumes "i \<le> length ax" "j < length g"
  shows "entry (vPnvrsTerm rho al w ax g) i j
     = CRRAutilityP_inv (entry (vPterm rho al w ax g) i j) rho"
  unfolding vPnvrsTerm_def using assms by (simp add: entry_amap [OF shape_vPterm])

lemma xEffTR_nonneg:
  assumes V: "valid_terminal al w ax g" and i: "i \<le> length ax" and j: "j < length g"
  shows "0 \<le> xEffTR al w ax g i j"
  unfolding xEffTR_def
  using cTR_lower [OF V i j] vt_b_nonneg [OF V i] by (intro mult_nonneg_nonneg) simp_all

lemma entry_xEffTerm_Fin:
  assumes V: "valid_terminal al w ax g" and i: "i \<le> length ax" and j: "j < length g"
  shows "entry (xEffTerm al w ax g) i j = Fin (xEffTR al w ax g i j)"
  using LsrTR_range [OF V i j]
  by (simp add: entry_xEffTerm [OF i j] entry_LsrTerm_Fin [OF V i j] entry_cNrmTerm_Fin [OF V i j]
      np_power_pos xEffTR_def del: np_power.simps)

lemma entry_vPterm_cases:
  assumes V: "valid_terminal al w ax g" and rho: "0 < rho"
    and i: "i \<le> length ax" and j: "j < length g"
  shows "entry (vPterm rho al w ax g) i j
     = (if xEffTR al w ax g i j = 0 then PInf else Fin (vPTR rho al w ax g i j))"
proof -
  have L: "0 < LsrTR al w ax g i j powr al" using LsrTR_range [OF V i j] by simp
  have A: "np_power (entry (LsrTerm al w ax g) i j) al = Fin (LsrTR al w ax g i j powr al)"
    using LsrTR_range [OF V i j]
    by (simp add: entry_LsrTerm_Fin [OF V i j] np_power_pos del: np_power.simps)
  show ?thesis
  proof (cases "xEffTR al w ax g i j = 0")
    case True
    then show ?thesis
      using rho L
      by (simp add: entry_vPterm [OF i j] A entry_xEffTerm_Fin [OF V i j] CRRAutilityP_def
          inf_of_sign_def)
  next
    case False
    then have "0 < xEffTR al w ax g i j" using xEffTR_nonneg [OF V i j] by simp
    then show ?thesis
      using False
      by (simp add: entry_vPterm [OF i j] A entry_xEffTerm_Fin [OF V i j] CRRAutilityP_def
          np_power_pos vPTR_def del: np_power.simps)
  qed
qed

lemma vPTR_pos:
  assumes V: "valid_terminal al w ax g" and i: "i \<le> length ax" and j: "j < length g"
    and x: "xEffTR al w ax g i j \<noteq> 0"
  shows "0 < vPTR rho al w ax g i j"
proof -
  have "0 < xEffTR al w ax g i j" using xEffTR_nonneg [OF V i j] x by simp
  then show ?thesis using LsrTR_range [OF V i j] by (simp add: vPTR_def)
qed

lemma entry_vPnvrsTerm_Fin:
  assumes V: "valid_terminal al w ax g" and rho: "0 < rho"
    and i: "i \<le> length ax" and j: "j < length g"
  shows "entry (vPnvrsTerm rho al w ax g) i j = Fin (vPnvrsTR rho al w ax g i j)"
proof (cases "xEffTR al w ax g i j = 0")
  case True
  then show ?thesis
    using rho
    by (simp add: entry_vPnvrsTerm [OF i j] entry_vPterm_cases [OF V rho i j]
        CRRAutilityP_inv_def vPnvrsTR_def)
next
  case False
  then show ?thesis
    using vPTR_pos [OF V i j False, of rho]
    by (simp add: entry_vPnvrsTerm [OF i j] entry_vPterm_cases [OF V rho i j]
        CRRAutilityP_inv_def vPnvrsTR_def np_power_pos del: np_power.simps)
qed

lemma terminal_round_trip_entry:
  assumes V: "valid_terminal al w ax g" and rho: "0 < rho"
    and i: "i \<le> length ax" and j: "j < length g"
  shows "CRRAutilityP (entry (vPnvrsTerm rho al w ax g) i j) rho = entry (vPterm rho al w ax g) i j"
proof (cases "xEffTR al w ax g i j = 0")
  case True
  then show ?thesis
    using rho
    by (simp add: entry_vPnvrsTerm_Fin [OF V rho i j] entry_vPterm_cases [OF V rho i j]
        CRRAutilityP_def vPnvrsTR_def)
next
  case False
  have v: "0 < vPTR rho al w ax g i j" by (rule vPTR_pos [OF V i j False])
  then have "(vPTR rho al w ax g i j powr (- 1 / rho)) powr (- rho) = vPTR rho al w ax g i j"
    using rho by (simp add: powr_powr)
  moreover have "0 < vPTR rho al w ax g i j powr (- 1 / rho)" using v by simp
  ultimately show ?thesis
    using False
    by (simp add: entry_vPnvrsTerm_Fin [OF V rho i j] entry_vPterm_cases [OF V rho i j]
        CRRAutilityP_def vPnvrsTR_def np_power_pos del: np_power.simps)
qed

lemma eval_vPnvrsFunc_terminal_node:
  assumes V: "valid_terminal al w ax g" and rho: "0 < rho"
    and i: "i \<le> length ax" and j: "j < length g"
  shows "eval2 (vPnvrsFunc_terminal rho al w ax g) (bNrmGrid_term ax ! i) (Fin (g ! j))
     = entry (vPnvrsTerm rho al w ax g) i j"
proof -
  have il: "i < length (bgridT ax)" using i by simp
  have "eval2 (vPnvrsFunc_terminal rho al w ax g) (Fin (bgridT ax ! i)) (Fin (g ! j))
      = Fin (bilinR (vPnvrsTR rho al w ax g) (bgridT ax) g (bgridT ax ! i) (g ! j))"
    unfolding vPnvrsFunc_terminal_def eval2.simps bNrmGrid_term_Fin
    using shape_vPnvrsTerm [of rho al w ax g]
    by (intro bilinear_Fin sorted_bgridT [OF V] vt_grids [OF V])
       (simp_all add: entry_vPnvrsTerm_Fin [OF V rho])
  then show ?thesis
    by (simp add: bNrmGrid_term_nth [OF i] entry_vPnvrsTerm_Fin [OF V rho i j]
        bilinR_at_node [OF sorted_bgridT [OF V] vt_grids(1) [OF V] il j])
qed

lemma terminal_round_trip:
  assumes V: "valid_terminal al w ax g" and rho: "0 < rho"
    and i: "i \<le> length ax" and j: "j < length g"
  shows "eval2 (MargValueFunc2D (vPnvrsFunc_terminal rho al w ax g) rho)
       (bNrmGrid_term ax ! i) (Fin (g ! j))
     = entry (vPterm rho al w ax g) i j"
  unfolding eval2.simps eval_vPnvrsFunc_terminal_node [OF V rho i j]
  by (rule terminal_round_trip_entry [OF V rho i j])

lemma ex_vPterm: "vPterm 1 1 1 [1] [1, 2] = [[PInf, Fin 1], [Fin 1, Fin (2/3)]]"
  by (simp add: vPterm_def xEffTerm_def ex_cNrmTerm LsrTerm_def LsrTerm_formula_def
      bNrmGridTerm_def TranShkGridTerm_def bNrmGrid_term_def tile_cols_def tile_rows_def
      amap_def amap2_def set_entry00_def CRRAutilityP_def real_pow_def numeral_2_eq_2
      powr_minus_divide inf_of_sign_def)

lemma entry_vPnvrsNowArray:
  assumes k: "length (TranShkGrid p) = TranShkCount p" and i: "i < aXtraCount p"
    and j: "j < length (TranShkGrid p)"
  shows "entry (vPnvrsNowArray p) (Suc i) j = uPinv p (EndOfPrdvP_temp p ! i)"
proof -
  have jc: "j < TranShkCount p" using j k by simp
  have "entry (EndOfPrdvP_tiled p) i j = EndOfPrdvP_temp p ! i"
    using i jc
    by (simp add: EndOfPrdvP_tiled_def EndOfPrdvP_def entry_tile_cols length_EndOfPrdvP_temp)
  then show ?thesis
    using i jc
    by (simp add: vPnvrsNowArray_def entry_Cons_Suc vPnvrsNow_def
        entry_amap [OF shape_EndOfPrdvP_tiled])
qed

lemma one_period_bounds:
  assumes S: "solveConsLaborIntMarg p = Inr (Some s)" and V: "valid_inputs p v"
    and lo: "TranShkGrid p ! 0 \<le> shk" and hi: "shk \<le> last (TranShkGrid p)"
    and b: "eval1 (bNrmMinNow p) (Fin shk) \<le> Fin b"
  shows "cFunc s = Some (cFuncNow p) \<and> LbrFunc s = Some (LbrFuncNow p)
    \<and> bNrmMin s = Some (bNrmMinNow p)
    \<and> Fin 0 \<le> eval2 (cFuncNow p) (Fin b) (Fin shk)
    \<and> (Fin b - eval1 (bNrmMinNow p) (Fin shk)
           \<le> last (bNrmNow_temp p (segment (map Fin (TranShkGrid p)) (Fin shk) - 1))
         \<and> Fin b - eval1 (bNrmMinNow p) (Fin shk)
           \<le> last (bNrmNow_temp p (segment (map Fin (TranShkGrid p)) (Fin shk)))
         \<longrightarrow> Fin 0 \<le> eval2 (LbrFuncNow p) (Fin b) (Fin shk)
           \<and> eval2 (LbrFuncNow p) (Fin b) (Fin shk) \<le> Fin 1)"
proof -
  let ?j = "rseg (TranShkGrid p) shk" and ?es = "esR p v"
  have W: "well_posed p ?es" by (rule valid_inputs_well_posed [OF S V])
  have s: "s = solution_now p" by (rule solve_SomeD(1) [OF S])
  have m: "bminR p shk \<le> b" using b by (simp add: eval_bmin [OF W])
  have c: "0 \<le> surf p ?es (ccolR p ?es) b shk"
    by (rule surf_lower [OF S W lo hi sorted_ccolR [OF S W] _ _ m]) (simp_all add: ccolR_def)
  have L: "0 \<le> surf p ?es (lcolR p ?es) b shk \<and> surf p ?es (lcolR p ?es) b shk \<le> 1"
    if "b - bminR p shk \<le> last (xcolR p ?es (?j - 1))" "b - bminR p shk \<le> last (xcolR p ?es ?j)"
    by (rule surf_range [OF S W lo hi lcolR_range _ m that]) simp_all
  have ne: "xcolR p ?es k \<noteq> []" for k by (simp add: xcolR_def)
  have last: "last (bNrmNow_temp p k) = Fin (last (xcolR p ?es k))"
    if "k < length (TranShkGrid p)" for k
    by (simp add: bNrmNow_temp_Fin [OF S W that] last_map [OF ne])
  have x: "Fin b - eval1 (bNrmMinNow p) (Fin shk) = Fin (b - bminR p shk)"
    by (simp add: eval_bmin [OF W] minus_npf_def)
  show ?thesis
    unfolding x segment_Fin last [OF surf_seg(1) [OF W, of shk]] last [OF surf_seg(2) [OF W, of shk]]
      eval_cFuncNow [OF S W m] eval_LbrFuncNow [OF S W m]
    using c L by (simp add: s solution_now_fields)
qed

lemma terminal_solution:
  assumes "updateSolutionTerminal tf gs cs ws ax rho = Inr s"
    and "pick tf gs = Inr g" and "pick tf cs = Inr al" and "pick tf ws = Inr w"
  shows "s = solution_terminal_of rho al w ax g"
  using assms by (simp add: updateSolutionTerminal_def split: if_splits)

lemma terminal_fields:
  "cFunc (solution_terminal_of rho al w ax g)
     = Some (BilinearInterp (cNrmTerm al w ax g) (bNrmGrid_term ax) (map Fin g))"
  "LbrFunc (solution_terminal_of rho al w ax g)
     = Some (BilinearInterp (LbrTerm al w ax g) (bNrmGrid_term ax) (map Fin g))"
  "vPfunc (solution_terminal_of rho al w ax g)
     = Some (MargValueFunc2D (vPnvrsFunc_terminal rho al w ax g) rho)"
  "bNrmMin (solution_terminal_of rho al w ax g) = Some (ConstantFunction 0)"
  by (simp_all add: solution_terminal_of_def Let_def)

lemma ex_terminal:
  "updateSolutionTerminal True [[1, 2]] [1] [1] [1] 1 = Inr (solution_terminal_of 1 1 1 [1] [1, 2])"
  "pick True [[1, 2 :: real]] = Inr [1, 2]" "pick True [1 :: real] = Inr 1"
  by (simp_all add: updateSolutionTerminal_def pick_def)

lemma ex_round_trips:
  "CRRAutilityP (uPinv example_args (Fin (1/18))) 1 = Fin (1/18)"
  "CRRAutilityP (CRRAutilityP_inv (Fin (2/3)) 1) 1 = Fin (2/3)"
  "CRRAutilityP (CRRAutilityP_inv PInf 1) 1 = PInf"
  by (simp_all add: uPinv_def CRRAutilityP_def CRRAutilityP_inv_def real_pow_def powr_neg_one)

text \<open>
  The test of \<open>CRRA\<close>: when it holds of the product the floats give, the solver leaves, or
  has failed before on the division. The input on which rounding decides the test follows.
\<close>

lemma CRRA_test_refuses:
  assumes "CRRA p \<le> fl (frac_float p * LbrCost p)"
  shows "solveConsLaborIntMarg p
     = Inl (if fl (1 + LbrCost p) = 0 then ZeroDivisionError else SystemExit)"
  using assms by (simp add: solveConsLaborIntMarg_def)


lemma ro_fields:
  "LbrCost rounding_args = 5404319552844595 / 18014398509481984"
  "CRRA rounding_args = 8314337773607069 / 36028797018963968"
  by (simp_all add: rounding_args_def)

lemma ro_frac_float: "frac_float rounding_args = 866076851417403 / 1125899906842624"
  by (simp add: frac_float_def ro_fields fl_eval)

lemma ro_solve: "solveConsLaborIntMarg rounding_args = Inr (Some (solution_now rounding_args))"
  by (simp add: solveConsLaborIntMarg_def ro_frac_float ro_fields fl_eval py_pow_raises_def)
     (simp add: rounding_args_def example_next_def TranShkVals_def PermShkVals_def
      TranShkCount_def PermShkCount_def TranShkPrbs_def PermShkPrbs_def)

section \<open>The claims\<close>

text \<open>
  C1. Whenever the solver constructs a solution, the bank balance of every gridpoint, that
  is of every asset level \<open>a\<close> of \<^verbatim>\<open>aXtraGrid\<close> and every shock of \<^verbatim>\<open>TranShkGrid\<close>, is
  \<open>a - wage * shock + c + wage * shock * leisure\<close> with the consumption and the leisure the
  solver holds for that gridpoint (after the overwrite of the first column and the clamp).
  Row 0 of the three arrays is the extra point; gridpoint \<open>i\<close> is row \<open>i + 1\<close>.
\<close>
theorem budget_identity_at_gridpoints:
  assumes "solveConsLaborIntMarg p = Inr (Some s)"
    and "i < length (aXtraGrid p)" and "j < length (TranShkGrid p)"
  shows "entry (bNowArray p) (Suc i) j =
     Fin (aXtraGrid p ! i) - Fin (WageRte p) * Fin (TranShkGrid p ! j)
       + entry (cNowArray p) (Suc i) j
       + Fin (WageRte p) * Fin (TranShkGrid p ! j) * entry (LsrNowArray p) (Suc i) j"
  using entry_bNrmNow [OF solve_SomeD(2) [OF assms(1)], of i j] assms(2,3)
  by (simp only: bNowArray_def cNowArray_def LsrNowArray_def entry_Cons_Suc
      entry_set_entry00_Suc aXtraCount_def)

theorem budget_identity_at_gridpoints_witness:
  "solveConsLaborIntMarg example_args = Inr (Some (solution_now example_args))
   \<and> entry (bNowArray example_args) 1 1 = Fin (- 6)
   \<and> entry (cNowArray example_args) 1 1 = Fin 1
   \<and> entry (LsrNowArray example_args) 1 1 = Fin (1/9)
   \<and> Fin (- 6) = Fin 1 - Fin 1 * Fin 9 + Fin 1 + Fin 1 * Fin 9 * Fin (1/9)"
  using budget_identity_at_gridpoints [OF ex_solve, of 0 1]
  by (simp add: ex_solve bNowArray_def cNowArray_def LsrNowArray_def ex_bNrmNow ex_cNrmNow
      ex_LsrNow entry_def set_entry00_def minus_npf_def zeros_row_def)

text \<open>
  C3. The test \<^verbatim>\<open>CRRA <= frac*LbrCost\<close> is made on floats, and rounding lets an input with
  \<open>CRRA \<le> LbrCost / (1 + LbrCost)\<close> through. With \<^verbatim>\<open>LbrCost = 0.3\<close> and
  \<^verbatim>\<open>CRRA = 0.23076923076923075\<close>, \<open>CRRA\<close> is below the quotient; \<^verbatim>\<open>frac\<close> is the float
  \<^verbatim>\<open>0.7692307692307692\<close> and \<^verbatim>\<open>frac*LbrCost\<close> the float \<^verbatim>\<open>0.23076923076923073\<close>, below
  \<open>CRRA\<close>; the solver does not leave and constructs a solution.
\<close>
theorem rounded_CRRA_test_passes:
  "CRRA rounding_args < LbrCost rounding_args / (1 + LbrCost rounding_args)
   \<and> frac_float rounding_args = 866076851417403 / 1125899906842624
   \<and> fl (frac_float rounding_args * LbrCost rounding_args) = 2078584443401767 / 9007199254740992
   \<and> fl (frac_float rounding_args * LbrCost rounding_args) < CRRA rounding_args
   \<and> solveConsLaborIntMarg rounding_args = Inr (Some (solution_now rounding_args))"
  by (simp add: ro_fields ro_frac_float ro_solve fl_eval)

text \<open>
  The solver computes before it looks at the configuration. With a borrowing constraint
  present and \<open>LbrCost = -1\<close>, the division in \<^verbatim>\<open>frac\<close> raises; with the value function
  requested and \<open>CRRA = 1/2\<close>, the test of \<open>CRRA\<close> on the product \<^verbatim>\<open>frac*LbrCost\<close> leaves
  through \<^verbatim>\<open>sys.exit()\<close>. Neither call comes to the check that would return \<^verbatim>\<open>None\<close>.
\<close>
theorem arithmetic_before_configuration_check:
  "BoroCnstArt (example_args\<lparr>BoroCnstArt := Some 0, LbrCost := - 1\<rparr>) \<noteq> None
   \<and> solveConsLaborIntMarg (example_args\<lparr>BoroCnstArt := Some 0, LbrCost := - 1\<rparr>)
       = Inl ZeroDivisionError
   \<and> vFuncBool (example_args\<lparr>vFuncBool := True, CRRA := 1/2\<rparr>)
   \<and> solveConsLaborIntMarg (example_args\<lparr>vFuncBool := True, CRRA := 1/2\<rparr>) = Inl SystemExit"
  by (simp add: solveConsLaborIntMarg_def frac_float_def)

text \<open>
  C4, amended. With an artificial borrowing constraint, or the value function or cubic
  interpolation requested, the solver constructs no solution, and its result is fixed by
  \<^verbatim>\<open>CRRA\<close> and \<^verbatim>\<open>LbrCost\<close> alone: no grid, distribution or next-period function is looked
  at. What is computed before the check is \<^verbatim>\<open>frac\<close> and the product \<^verbatim>\<open>frac*LbrCost\<close>: the
  call raises when \<open>1 + LbrCost\<close> is 0, leaves when \<open>CRRA\<close> is at most the product, and
  returns \<^verbatim>\<open>None\<close> otherwise.
\<close>
theorem unsupported_configuration_refused:
  assumes "BoroCnstArt p \<noteq> None \<or> vFuncBool p \<or> CubicBool p"
  shows "solveConsLaborIntMarg p =
     (if fl (1 + LbrCost p) = 0 then Inl ZeroDivisionError
      else if CRRA p \<le> fl (frac_float p * LbrCost p) then Inl SystemExit
      else Inr None)"
  using assms by (auto simp add: solveConsLaborIntMarg_def)

theorem unsupported_configuration_refused_witness:
  "solveConsLaborIntMarg (example_args\<lparr>BoroCnstArt := Some 0\<rparr>) = Inr None
   \<and> solveConsLaborIntMarg (example_args\<lparr>vFuncBool := True\<rparr>) = Inr None
   \<and> solveConsLaborIntMarg (example_args\<lparr>CubicBool := True\<rparr>) = Inr None"
  using unsupported_configuration_refused [of "example_args\<lparr>BoroCnstArt := Some 0\<rparr>"]
    unsupported_configuration_refused [of "example_args\<lparr>vFuncBool := True\<rparr>"]
    unsupported_configuration_refused [of "example_args\<lparr>CubicBool := True\<rparr>"]
  by (simp add: frac_float_def)

text \<open>
  C10. Whenever the solver constructs a solution, the first column of the shock grid holds
  the closed form of a zero shock, with no look at the shock's value: consumption is the
  inverse marginal utility of the end-of-period marginal value, leisure is 1, and so is the
  leisure of the extra point in that column.
\<close>
theorem first_shock_column_overwritten:
  assumes "solveConsLaborIntMarg p = Inr (Some s)" and "i < length (aXtraGrid p)"
  shows "entry (cNowArray p) (Suc i) 0 = uPinv p (EndOfPrdvP_temp p ! i)
    \<and> entry (LsrNowArray p) (Suc i) 0 = Fin 1
    \<and> entry (LsrNowArray p) 0 0 = Fin 1"
proof -
  have m: "0 < length (TranShkGrid p)" and k: "length (TranShkGrid p) = TranShkCount p"
    using solve_SomeD [OF assms(1)] by simp_all
  have i: "i < aXtraCount p" using assms(2) by (simp add: aXtraCount_def)
  have "entry (cNrmNow p) i 0 = uPinv p (EndOfPrdvP_temp p ! i)"
    by (simp add: entry_cNrmNow [OF k i m] entry_cNrmNow_col0 [OF i m])
  moreover have "entry (LsrNow p) i 0 = Fin 1"
    by (simp add: entry_LsrNow [OF i m] entry_LsrNow_col0 [OF i m])
  moreover have "entry (LsrNowArray p) 0 0 = Fin 1"
    unfolding LsrNowArray_def using m by (simp add: entry_set_entry00_0 zeros_row_def)
  ultimately show ?thesis
    by (simp add: cNowArray_def LsrNowArray_def entry_Cons_Suc entry_set_entry00_Suc)
qed

theorem first_shock_column_overwritten_witness:
  "TranShkGrid example_args ! 0 = 4
   \<and> entry (cNrmNow_foc example_args) 0 0 = Fin 1
   \<and> entry (LsrNow_foc example_args) 0 0 = Fin (1/4)
   \<and> entry (cNowArray example_args) 1 0 = Fin 1
   \<and> entry (LsrNowArray example_args) 1 0 = Fin 1
   \<and> entry (LsrNowArray example_args) 0 0 = Fin 1"
  using first_shock_column_overwritten [OF ex_solve, of 0]
  by (simp add: ex_cNrmNow_foc ex_LsrNow_foc entry_def ex_EndOfPrdvP_temp uPinv_def
      CRRAutilityP_inv_def real_pow_def)

text \<open>
  The clamp is not elementwise in the first column. In the example the first shock is 4, the
  first-order condition gives leisure \<open>1/4\<close> at the first gridpoint, and the solver holds 1.
\<close>
theorem clamp_claim_counterexample:
  "solveConsLaborIntMarg example_args = Inr (Some (solution_now example_args))
   \<and> entry (LsrNow_foc example_args) 0 0 = Fin (1/4)
   \<and> Fin (1/4) \<le> Fin 1
   \<and> entry (LsrNow example_args) 0 0 = Fin 1
   \<and> entry (LsrNow example_args) 0 0 \<noteq> entry (LsrNow_foc example_args) 0 0"
  by (simp add: ex_solve ex_LsrNow_foc ex_LsrNow entry_def)

text \<open>
  C2, amended. Where the first-order condition gives leisure above 1, and everywhere in the
  first shock column, leisure is 1 and consumption is the inverse marginal utility of the
  end-of-period marginal value. At every other gridpoint, leisure and consumption are those
  of the first-order condition. The test of the source is \<^verbatim>\<open>LsrNow > 1.\<close>, which is also
  false for NaN.
\<close>
theorem labor_constraint_clamp:
  assumes "solveConsLaborIntMarg p = Inr (Some s)"
    and "i < length (aXtraGrid p)" and "j < length (TranShkGrid p)"
  shows "(Fin 1 < entry (LsrNow_foc p) i j \<or> j = 0 \<longrightarrow>
            entry (LsrNow p) i j = Fin 1
            \<and> entry (cNrmNow p) i j = uPinv p (EndOfPrdvP_temp p ! i))
       \<and> (\<not> Fin 1 < entry (LsrNow_foc p) i j \<and> 0 < j \<longrightarrow>
            entry (LsrNow p) i j = entry (LsrNow_foc p) i j
            \<and> entry (cNrmNow p) i j = entry (cNrmNow_foc p) i j)"
proof -
  have k: "length (TranShkGrid p) = TranShkCount p"
    using solve_SomeD [OF assms(1)] by simp
  have i: "i < aXtraCount p" using assms(2) by (simp add: aXtraCount_def)
  have L: "entry (LsrNow_col0 p) i j = (if j = 0 then Fin 1 else entry (LsrNow_foc p) i j)"
    by (rule entry_LsrNow_col0 [OF i assms(3)])
  have C: "entry (cNrmNow_col0 p) i j =
      (if j = 0 then uPinv p (EndOfPrdvP_temp p ! i) else entry (cNrmNow_foc p) i j)"
    by (rule entry_cNrmNow_col0 [OF i assms(3)])
  have N: "entry (LsrNow p) i j =
      (if Fin 1 < entry (LsrNow_col0 p) i j then Fin 1 else entry (LsrNow_col0 p) i j)"
    by (rule entry_LsrNow [OF i assms(3)])
  have M: "entry (cNrmNow p) i j =
      (if Fin 1 < entry (LsrNow_col0 p) i j then uPinv p (EndOfPrdvP_temp p ! i)
       else entry (cNrmNow_col0 p) i j)"
    by (rule entry_cNrmNow [OF k i assms(3)])
  show ?thesis
    unfolding N M L C by simp
qed

theorem labor_constraint_clamp_witness:
  "entry (LsrNow_foc example_args) 1 1 = Fin 2
   \<and> entry (LsrNow example_args) 1 1 = Fin 1
   \<and> entry (cNrmNow example_args) 1 1 = uPinv example_args (EndOfPrdvP_temp example_args ! 1)
   \<and> entry (LsrNow_foc example_args) 0 1 = Fin (1/9)
   \<and> entry (LsrNow example_args) 0 1 = entry (LsrNow_foc example_args) 0 1
   \<and> entry (cNrmNow example_args) 0 1 = entry (cNrmNow_foc example_args) 0 1"
  using labor_constraint_clamp [OF ex_solve, of 1 1] labor_constraint_clamp [OF ex_solve, of 0 1]
  by (simp add: ex_LsrNow_foc entry_def)

text \<open>
  C9. A call on a store, with \<^verbatim>\<open>solution_next\<close> the solution at address \<open>r\<close>, leaves every
  object of the store as it was, that solution and its four functions among them: each
  assignment into an array and each \<^verbatim>\<open>setattr\<close> of the body goes to an object the body made.
  The result is what \<open>solveConsLaborIntMarg\<close> gives on that solution; a solution it returns
  is a new object, at an address the store did not have. Of the next period's solution the
  attribute \<^verbatim>\<open>vPfunc\<close> alone is read: any solution with the same \<^verbatim>\<open>vPfunc\<close> gives the same
  result.
\<close>
theorem solution_next_not_mutated:
  assumes "r < length h" and "h ! r = Sol sn" and "call_solveConsLaborIntMarg h r p = (h', out)"
  shows "take (length h) h' = h \<and> h' ! r = Sol sn
    \<and> cFunc (the_sol (h' ! r)) = cFunc sn \<and> LbrFunc (the_sol (h' ! r)) = LbrFunc sn
    \<and> vPfunc (the_sol (h' ! r)) = vPfunc sn \<and> bNrmMin (the_sol (h' ! r)) = bNrmMin sn
    \<and> (\<forall>e. out = Inl e \<longrightarrow>
          h' = h \<and> solveConsLaborIntMarg (p\<lparr>solution_next := sn\<rparr>) = Inl e)
    \<and> (out = Inr None \<longrightarrow>
          h' = h \<and> solveConsLaborIntMarg (p\<lparr>solution_next := sn\<rparr>) = Inr None)
    \<and> (\<forall>a. out = Inr (Some a) \<longrightarrow>
          length h \<le> a \<and> a < length h' \<and> a \<noteq> r
          \<and> h' ! a = Sol (solution_now (p\<lparr>solution_next := sn\<rparr>))
          \<and> solveConsLaborIntMarg (p\<lparr>solution_next := sn\<rparr>)
              = Inr (Some (solution_now (p\<lparr>solution_next := sn\<rparr>))))
    \<and> (\<forall>s. vPfunc s = vPfunc sn \<longrightarrow>
          solveConsLaborIntMarg (p\<lparr>solution_next := s\<rparr>)
            = solveConsLaborIntMarg (p\<lparr>solution_next := sn\<rparr>))"
proof -
  let ?args = "p\<lparr>solution_next := sn\<rparr>"
  have c: "call_solveConsLaborIntMarg h r p =
      (case solveConsLaborIntMarg ?args of
         Inl e \<Rightarrow> (h, Inl e)
       | Inr None \<Rightarrow> (h, Inr None)
       | Inr (Some s) \<Rightarrow>
           (h @ [Arr (cNrmNow ?args), Arr (LsrNow ?args), Arr (LsrNowArray ?args),
                 Sol (solution_now ?args)], Inr (Some (length h + 3))))"
    by (simp add: call_solveConsLaborIntMarg_def assms(2) solver_body_store
        split: sum.splits option.splits)
  have frame: "take (length h) h' = h"
    using assms(3) unfolding c by (auto split: sum.splits option.splits)
  then have r: "h' ! r = Sol sn" using assms(1,2) by (metis nth_take)
  have out: "(\<forall>e. out = Inl e \<longrightarrow> h' = h \<and> solveConsLaborIntMarg ?args = Inl e)
    \<and> (out = Inr None \<longrightarrow> h' = h \<and> solveConsLaborIntMarg ?args = Inr None)
    \<and> (\<forall>a. out = Inr (Some a) \<longrightarrow>
          length h \<le> a \<and> a < length h' \<and> a \<noteq> r \<and> h' ! a = Sol (solution_now ?args)
          \<and> solveConsLaborIntMarg ?args = Inr (Some (solution_now ?args)))"
    using assms(1,3) solve_SomeD(1) [of ?args] unfolding c
    by (auto simp add: nth_append split: sum.splits option.splits)
  have fields: "cFunc (the_sol (h' ! r)) = cFunc sn \<and> LbrFunc (the_sol (h' ! r)) = LbrFunc sn
      \<and> vPfunc (the_sol (h' ! r)) = vPfunc sn \<and> bNrmMin (the_sol (h' ! r)) = bNrmMin sn"
    by (simp add: r)
  have cong: "\<forall>s. vPfunc s = vPfunc sn \<longrightarrow>
      solveConsLaborIntMarg (p\<lparr>solution_next := s\<rparr>) = solveConsLaborIntMarg ?args"
    using solve_cong by blast
  show ?thesis
    by (intro conjI frame r fields [THEN conjunct1] fields [THEN conjunct2, THEN conjunct1]
        fields [THEN conjunct2, THEN conjunct2, THEN conjunct1]
        fields [THEN conjunct2, THEN conjunct2, THEN conjunct2]
        out [THEN conjunct1] out [THEN conjunct2, THEN conjunct1]
        out [THEN conjunct2, THEN conjunct2] cong)
qed

theorem solution_next_not_mutated_witness:
  "call_solveConsLaborIntMarg example_store 0 example_args
     = (example_store @ [Arr (cNrmNow example_args), Arr (LsrNow example_args),
          Arr (LsrNowArray example_args), Sol (solution_now example_args)], Inr (Some 4))
   \<and> (example_store @ [Arr (cNrmNow example_args), Arr (LsrNow example_args),
          Arr (LsrNowArray example_args), Sol (solution_now example_args)]) ! 0 = Sol example_next
   \<and> solveConsLaborIntMarg example_args = Inr (Some (solution_now example_args))"
  using solution_next_not_mutated [of 0 example_store example_next example_args
      "example_store @ [Arr (cNrmNow example_args), Arr (LsrNow example_args),
          Arr (LsrNowArray example_args), Sol (solution_now example_args)]" "Inr (Some 4)"]
  by (simp add: call_solveConsLaborIntMarg_def example_store_def solver_body_store ex_args_next
      ex_solve)

text \<open>
  The terminal leisure at the node of zero balances and the first shock is 1 by assignment,
  not by the formula: with a first shock of 1 the formula gives \<open>1/2\<close>.
\<close>
theorem terminal_leisure_counterexample:
  "updateSolutionTerminal True [[1, 2]] [1] [1] [1] 1 = Inr (solution_terminal_of 1 1 1 [1] [1, 2])
   \<and> entry (LsrTerm 1 1 [1] [1, 2]) 0 0 = Fin 1
   \<and> LsrTerm_formula 1 1 (bNrmGrid_term [1] ! 0) (Fin ([1, 2] ! 0)) = Fin (1/2)"
  by (simp add: updateSolutionTerminal_def pick_def entry_LsrTerm LsrTerm_formula_def
      bNrmGrid_term_def)


text \<open>
  C7, amended. In the terminal solver, leisure at the node of zero balances and the first
  grid shock is 1 and labor there is 0, whatever that shock is (so also when it is 0); at
  every other node leisure is \<open>min((\<alpha>/(1+\<alpha>)) * (b/(wage * shock) + 1), 1)\<close>; consumption is
  \<open>b + labor * wage * shock\<close> at every node; the balance grid starts at 0; and the minimum
  balance is the constant 0.
\<close>
theorem terminal_nodes:
  assumes "updateSolutionTerminal tf gs cs ws ax rho = Inr s"
    and "pick tf gs = Inr g" and "pick tf cs = Inr al" and "pick tf ws = Inr w"
    and "i \<le> length ax" and "j < length g"
  shows "entry (LsrTerm al w ax g) 0 0 = Fin 1 \<and> entry (LbrTerm al w ax g) 0 0 = Fin 0
    \<and> (0 < i \<or> 0 < j \<longrightarrow>
         entry (LsrTerm al w ax g) i j
           = LsrTerm_formula al w (bNrmGrid_term ax ! i) (Fin (g ! j)))
    \<and> entry (cNrmTerm al w ax g) i j
         = bNrmGrid_term ax ! i + entry (LbrTerm al w ax g) i j * Fin w * Fin (g ! j)
    \<and> bNrmGrid_term ax ! 0 = Fin 0
    \<and> LbrFunc s = Some (BilinearInterp (LbrTerm al w ax g) (bNrmGrid_term ax) (map Fin g))
    \<and> cFunc s = Some (BilinearInterp (cNrmTerm al w ax g) (bNrmGrid_term ax) (map Fin g))
    \<and> bNrmMin s = Some (ConstantFunction 0)
    \<and> eval1 (ConstantFunction 0) shk = Fin 0"
proof -
  have g: "0 < length g" using assms(6) by (cases g) simp_all
  have s: "s = solution_terminal_of rho al w ax g"
    using assms(1-4) by (simp add: updateSolutionTerminal_def split: if_splits)
  have z: "entry (LsrTerm al w ax g) 0 0 = Fin 1"
    using entry_LsrTerm [of 0 ax 0 g al w] g by simp
  have "entry (LbrTerm al w ax g) 0 0 = Fin 0"
    using entry_LbrTerm [of 0 ax 0 g al w] g z by (simp add: minus_npf_def)
  then show ?thesis
    using z entry_LsrTerm [OF assms(5,6), of al w] entry_cNrmTerm [OF assms(5,6), of al w]
    by (auto simp add: s solution_terminal_of_def Let_def bNrmGrid_term_def)
qed

theorem terminal_nodes_witness:
  "updateSolutionTerminal True [[1, 2]] [1] [1] [1] 1 = Inr (solution_terminal_of 1 1 1 [1] [1, 2])
   \<and> entry (LsrTerm 1 1 [1] [1, 2]) 0 0 = Fin 1
   \<and> entry (LbrTerm 1 1 [1] [1, 2]) 0 0 = Fin 0
   \<and> entry (LsrTerm 1 1 [1] [1, 2]) 0 1 = Fin (1/2)
   \<and> entry (cNrmTerm 1 1 [1] [1, 2]) 0 1 = Fin 1"
  using terminal_nodes [of True "[[1, 2]]" "[1]" "[1]" "[1]" 1 "solution_terminal_of 1 1 1 [1] [1, 2]"
      "[1, 2]" 1 1 0 1]
  by (simp add: updateSolutionTerminal_def pick_def LsrTerm_formula_def bNrmGrid_term_def
      entry_LbrTerm minus_npf_def)


text \<open>
  C6. In the solution of the one-period solver and in that of the terminal solver, the
  marginal value function at a point is the CRRA marginal utility of the pseudo-inverse
  marginal value function at that point. At the gridpoints this gives back the marginal
  values the functions were built from. One-period solver, valid inputs: at the gridpoint of
  asset level \<open>i\<close> and shock \<open>j\<close> the pseudo-inverse function is the entry of
  \<^verbatim>\<open>vPnvrsNowArray\<close>, the inverse marginal utility of \<^verbatim>\<open>EndOfPrdvP_temp[i]\<close>, and the
  marginal value function is \<^verbatim>\<open>EndOfPrdvP_temp[i]\<close>. Terminal solver, valid inputs and
  positive risk aversion: at the node \<open>(i, j)\<close> the pseudo-inverse function is the entry of
  \<^verbatim>\<open>vPnvrsTerm\<close>, the inverse marginal utility of \<^verbatim>\<open>vPterm[i,j]\<close>, and the marginal value
  function is \<^verbatim>\<open>vPterm[i,j]\<close>, infinite at the node of zero balances and the first shock.
\<close>
theorem marginal_value_from_pseudo_inverse:
  "(solveConsLaborIntMarg p = Inr (Some s) \<longrightarrow>
      vPfunc s = Some (vPfuncNow p)
      \<and> eval2 (vPfuncNow p) b shk = CRRAutilityP (eval2 (vPnvrsFuncNow p) b shk) (CRRA p)
      \<and> (valid_inputs p v \<and> i < length (aXtraGrid p) \<and> j < length (TranShkGrid p) \<longrightarrow>
           eval2 (vPnvrsFuncNow p) (entry (bNowArray p) (Suc i) j) (Fin (TranShkGrid p ! j))
             = entry (vPnvrsNowArray p) (Suc i) j
           \<and> entry (vPnvrsNowArray p) (Suc i) j = uPinv p (EndOfPrdvP_temp p ! i)
           \<and> eval2 (vPfuncNow p) (entry (bNowArray p) (Suc i) j) (Fin (TranShkGrid p ! j))
             = EndOfPrdvP_temp p ! i))
   \<and> (updateSolutionTerminal tf gs cs ws ax rho = Inr s'
      \<and> pick tf gs = Inr g \<and> pick tf cs = Inr al \<and> pick tf ws = Inr w \<longrightarrow>
      vPfunc s' = Some (MargValueFunc2D (vPnvrsFunc_terminal rho al w ax g) rho)
      \<and> eval2 (MargValueFunc2D (vPnvrsFunc_terminal rho al w ax g) rho) b shk
          = CRRAutilityP (eval2 (vPnvrsFunc_terminal rho al w ax g) b shk) rho
      \<and> (valid_terminal al w ax g \<and> 0 < rho \<and> i' \<le> length ax \<and> j' < length g \<longrightarrow>
           eval2 (vPnvrsFunc_terminal rho al w ax g) (bNrmGrid_term ax ! i') (Fin (g ! j'))
             = entry (vPnvrsTerm rho al w ax g) i' j'
           \<and> entry (vPnvrsTerm rho al w ax g) i' j'
             = CRRAutilityP_inv (entry (vPterm rho al w ax g) i' j') rho
           \<and> eval2 (MargValueFunc2D (vPnvrsFunc_terminal rho al w ax g) rho)
                 (bNrmGrid_term ax ! i') (Fin (g ! j'))
             = entry (vPterm rho al w ax g) i' j'))"
proof (intro conjI impI)
  assume S: "solveConsLaborIntMarg p = Inr (Some s)"
  show "vPfunc s = Some (vPfuncNow p)"
    using solve_SomeD(1) [OF S] by (simp add: solution_now_fields)
  show "eval2 (vPfuncNow p) b shk = CRRAutilityP (eval2 (vPnvrsFuncNow p) b shk) (CRRA p)"
    by (simp add: vPfuncNow_def)
  assume A: "valid_inputs p v \<and> i < length (aXtraGrid p) \<and> j < length (TranShkGrid p)"
  then have V: "valid_inputs p v" and i: "i < aXtraCount p" and j: "j < length (TranShkGrid p)"
    by (simp_all add: aXtraCount_def)
  have W: "well_posed p (esR p v)" by (rule valid_inputs_well_posed [OF S V])
  have e: "entry (vPnvrsNowArray p) (Suc i) j = uPinv p (EndOfPrdvP_temp p ! i)"
    by (rule entry_vPnvrsNowArray [OF solve_SomeD(2) [OF S] i j])
  show "entry (vPnvrsNowArray p) (Suc i) j = uPinv p (EndOfPrdvP_temp p ! i)" by (rule e)
  show "eval2 (vPnvrsFuncNow p) (entry (bNowArray p) (Suc i) j) (Fin (TranShkGrid p ! j))
      = entry (vPnvrsNowArray p) (Suc i) j"
    unfolding e by (rule gridpoint_round_trip(1) [OF S W i j])
  show "eval2 (vPfuncNow p) (entry (bNowArray p) (Suc i) j) (Fin (TranShkGrid p ! j))
      = EndOfPrdvP_temp p ! i"
    by (rule gridpoint_round_trip(2) [OF S W i j])
next
  assume A: "updateSolutionTerminal tf gs cs ws ax rho = Inr s'
      \<and> pick tf gs = Inr g \<and> pick tf cs = Inr al \<and> pick tf ws = Inr w"
  then have s: "s' = solution_terminal_of rho al w ax g"
    by (intro terminal_solution [of tf gs cs ws ax rho s' g al w]) simp_all
  show "vPfunc s' = Some (MargValueFunc2D (vPnvrsFunc_terminal rho al w ax g) rho)"
    by (simp add: s terminal_fields)
  show "eval2 (MargValueFunc2D (vPnvrsFunc_terminal rho al w ax g) rho) b shk
      = CRRAutilityP (eval2 (vPnvrsFunc_terminal rho al w ax g) b shk) rho"
    by simp
  assume B: "valid_terminal al w ax g \<and> 0 < rho \<and> i' \<le> length ax \<and> j' < length g"
  then have V: "valid_terminal al w ax g" and rho: "0 < rho" and i: "i' \<le> length ax"
    and j: "j' < length g" by simp_all
  show "eval2 (vPnvrsFunc_terminal rho al w ax g) (bNrmGrid_term ax ! i') (Fin (g ! j'))
      = entry (vPnvrsTerm rho al w ax g) i' j'"
    by (rule eval_vPnvrsFunc_terminal_node [OF V rho i j])
  show "entry (vPnvrsTerm rho al w ax g) i' j'
      = CRRAutilityP_inv (entry (vPterm rho al w ax g) i' j') rho"
    by (rule entry_vPnvrsTerm [OF i j])
  show "eval2 (MargValueFunc2D (vPnvrsFunc_terminal rho al w ax g) rho)
        (bNrmGrid_term ax ! i') (Fin (g ! j'))
      = entry (vPterm rho al w ax g) i' j'"
    by (rule terminal_round_trip [OF V rho i j])
qed

theorem marginal_value_from_pseudo_inverse_witness:
  "vPfunc (solution_now example_args) = Some (vPfuncNow example_args)
   \<and> entry (bNowArray example_args) 2 1 = Fin 36
   \<and> EndOfPrdvP_temp example_args ! 1 = Fin (1/18)
   \<and> eval2 (vPnvrsFuncNow example_args) (Fin 36) (Fin 9) = Fin 18
   \<and> eval2 (vPfuncNow example_args) (Fin 36) (Fin 9) = Fin (1/18)
   \<and> vPfunc (solution_terminal_of 1 1 1 [1] [1, 2])
       = Some (MargValueFunc2D (vPnvrsFunc_terminal 1 1 1 [1] [1, 2]) 1)
   \<and> entry (vPterm 1 1 1 [1] [1, 2]) 1 1 = Fin (2/3)
   \<and> eval2 (MargValueFunc2D (vPnvrsFunc_terminal 1 1 1 [1] [1, 2]) 1) (Fin 1) (Fin 2) = Fin (2/3)
   \<and> entry (vPterm 1 1 1 [1] [1, 2]) 0 0 = PInf
   \<and> eval2 (MargValueFunc2D (vPnvrsFunc_terminal 1 1 1 [1] [1, 2]) 1) (Fin 0) (Fin 1) = PInf"
  using marginal_value_from_pseudo_inverse [of example_args "solution_now example_args"
      "Fin 36" "Fin 9" "\<lambda>b shk. 1 / b" 1 1 True "[[1, 2]]" "[1]" "[1]" "[1]" 1
      "solution_terminal_of 1 1 1 [1] [1, 2]" "[1, 2]" 1 1 1 1]
    marginal_value_from_pseudo_inverse [of example_args "solution_now example_args"
      "Fin 36" "Fin 9" "\<lambda>b shk. 1 / b" 1 1 True "[[1, 2]]" "[1]" "[1]" "[1]" 1
      "solution_terminal_of 1 1 1 [1] [1, 2]" "[1, 2]" 1 1 0 0]
  by (simp add: ex_solve ex_valid_inputs ex_terminal ex_valid_terminal ex_bNowArray
      ex_EndOfPrdvP_temp ex_vPterm entry_def bNrmGrid_term_def solution_now_fields
      ex_vPnvrs_36_9 ex_round_trips)

text \<open>
  Labor and consumption leave their ranges where the functions extrapolate. One-period
  solver, in the example, whose inputs are valid: labor at shock 9 falls to 0 at the last
  gridpoint and is \<open>-8/9\<close> at balances 78; at shock 14, beyond the shock grid, it is \<open>16/9\<close>
  at balances \<open>-11\<close>; consumption at shock 34 is \<open>-39/7\<close> at balances 166. Terminal solver,
  asset grid \<open>[1]\<close> and shocks \<open>[1, 2]\<close>: labor is \<open>-1/4\<close> at balances 3 and shock 2, beyond
  the last gridpoint, and consumption is \<open>-1/4\<close> at balances \<open>1/2\<close> and shock 0, below the
  shock grid.
\<close>
theorem labor_bounds_counterexample:
  "solveConsLaborIntMarg example_args = Inr (Some (solution_now example_args))
   \<and> valid_inputs example_args (\<lambda>b shk. 1 / b)
   \<and> LbrFunc (solution_now example_args) = Some (LbrFuncNow example_args)
   \<and> cFunc (solution_now example_args) = Some (cFuncNow example_args)
   \<and> eval1 (bNrmMinNow example_args) (Fin 9) = Fin (- 9)
   \<and> eval2 (LbrFuncNow example_args) (Fin 78) (Fin 9) = Fin (- 8/9)
   \<and> \<not> Fin 0 \<le> eval2 (LbrFuncNow example_args) (Fin 78) (Fin 9)
   \<and> eval1 (bNrmMinNow example_args) (Fin 14) = Fin (- 14)
   \<and> eval2 (LbrFuncNow example_args) (Fin (- 11)) (Fin 14) = Fin (16/9)
   \<and> \<not> eval2 (LbrFuncNow example_args) (Fin (- 11)) (Fin 14) \<le> Fin 1
   \<and> eval1 (bNrmMinNow example_args) (Fin 34) = Fin (- 34)
   \<and> eval2 (cFuncNow example_args) (Fin 166) (Fin 34) = Fin (- 39/7)
   \<and> \<not> Fin 0 \<le> eval2 (cFuncNow example_args) (Fin 166) (Fin 34)
   \<and> updateSolutionTerminal True [[1, 2]] [1] [1] [1] 1 = Inr (solution_terminal_of 1 1 1 [1] [1, 2])
   \<and> valid_terminal 1 1 [1] [1, 2]
   \<and> LbrFunc (solution_terminal_of 1 1 1 [1] [1, 2])
       = Some (BilinearInterp (LbrTerm 1 1 [1] [1, 2]) (bNrmGrid_term [1]) (map Fin [1, 2]))
   \<and> cFunc (solution_terminal_of 1 1 1 [1] [1, 2])
       = Some (BilinearInterp (cNrmTerm 1 1 [1] [1, 2]) (bNrmGrid_term [1]) (map Fin [1, 2]))
   \<and> eval2 (BilinearInterp (LbrTerm 1 1 [1] [1, 2]) (bNrmGrid_term [1]) (map Fin [1, 2]))
         (Fin 3) (Fin 2) = Fin (- 1/4)
   \<and> \<not> Fin 0 \<le> eval2 (BilinearInterp (LbrTerm 1 1 [1] [1, 2]) (bNrmGrid_term [1]) (map Fin [1, 2]))
         (Fin 3) (Fin 2)
   \<and> eval2 (BilinearInterp (cNrmTerm 1 1 [1] [1, 2]) (bNrmGrid_term [1]) (map Fin [1, 2]))
         (Fin (1/2)) (Fin 0) = Fin (- 1/4)
   \<and> \<not> Fin 0 \<le> eval2 (BilinearInterp (cNrmTerm 1 1 [1] [1, 2]) (bNrmGrid_term [1]) (map Fin [1, 2]))
         (Fin (1/2)) (Fin 0)"
  unfolding ex_terminal_labor ex_terminal_consumption
  by (simp add: ex_solve ex_valid_inputs solution_now_fields ex_bmin9 ex_bmin14 ex_bmin34
      ex_labor_78_9 ex_labor_m11_14 ex_c_166_34 ex_terminal ex_valid_terminal terminal_fields)

text \<open>
  C5, amended. For every query point \<open>(b, shk)\<close> with the shock within the shock grid and
  \<open>b\<close> at or above the minimum balance of the shock, consumption is at least 0, and labor is
  within \<open>[0, 1]\<close> up to the last gridpoint. One-period solver, valid inputs: up to the last
  gridpoint means that the balance in excess of the minimum is not beyond the last gridpoint
  of either of the two shock columns the point is interpolated between. Terminal solver,
  valid inputs: the minimum balance is 0 and the last gridpoint is the last asset gridpoint.
\<close>
theorem labor_and_consumption_bounds:
  "(solveConsLaborIntMarg p = Inr (Some s) \<and> valid_inputs p v
      \<and> TranShkGrid p ! 0 \<le> shk \<and> shk \<le> last (TranShkGrid p)
      \<and> eval1 (bNrmMinNow p) (Fin shk) \<le> Fin b
    \<longrightarrow> cFunc s = Some (cFuncNow p) \<and> LbrFunc s = Some (LbrFuncNow p)
      \<and> bNrmMin s = Some (bNrmMinNow p)
      \<and> Fin 0 \<le> eval2 (cFuncNow p) (Fin b) (Fin shk)
      \<and> (Fin b - eval1 (bNrmMinNow p) (Fin shk)
             \<le> last (bNrmNow_temp p (segment (map Fin (TranShkGrid p)) (Fin shk) - 1))
           \<and> Fin b - eval1 (bNrmMinNow p) (Fin shk)
             \<le> last (bNrmNow_temp p (segment (map Fin (TranShkGrid p)) (Fin shk)))
           \<longrightarrow> Fin 0 \<le> eval2 (LbrFuncNow p) (Fin b) (Fin shk)
             \<and> eval2 (LbrFuncNow p) (Fin b) (Fin shk) \<le> Fin 1))
   \<and> (updateSolutionTerminal tf gs cs ws ax rho = Inr s'
      \<and> pick tf gs = Inr g \<and> pick tf cs = Inr al \<and> pick tf ws = Inr w
      \<and> valid_terminal al w ax g \<and> g ! 0 \<le> shk' \<and> shk' \<le> last g \<and> 0 \<le> b'
    \<longrightarrow> cFunc s' = Some (BilinearInterp (cNrmTerm al w ax g) (bNrmGrid_term ax) (map Fin g))
      \<and> LbrFunc s' = Some (BilinearInterp (LbrTerm al w ax g) (bNrmGrid_term ax) (map Fin g))
      \<and> bNrmMin s' = Some (ConstantFunction 0)
      \<and> Fin 0 \<le> eval2 (BilinearInterp (cNrmTerm al w ax g) (bNrmGrid_term ax) (map Fin g))
                   (Fin b') (Fin shk')
      \<and> (b' \<le> last ax
           \<longrightarrow> Fin 0 \<le> eval2 (BilinearInterp (LbrTerm al w ax g) (bNrmGrid_term ax) (map Fin g))
                        (Fin b') (Fin shk')
             \<and> eval2 (BilinearInterp (LbrTerm al w ax g) (bNrmGrid_term ax) (map Fin g))
                        (Fin b') (Fin shk') \<le> Fin 1))"
proof (intro conjI impI)
  assume A: "solveConsLaborIntMarg p = Inr (Some s) \<and> valid_inputs p v
      \<and> TranShkGrid p ! 0 \<le> shk \<and> shk \<le> last (TranShkGrid p)
      \<and> eval1 (bNrmMinNow p) (Fin shk) \<le> Fin b"
  then have B: "solveConsLaborIntMarg p = Inr (Some s)" "valid_inputs p v"
    "TranShkGrid p ! 0 \<le> shk" "shk \<le> last (TranShkGrid p)"
    "eval1 (bNrmMinNow p) (Fin shk) \<le> Fin b" by simp_all
  note O = one_period_bounds [OF B]
  show "cFunc s = Some (cFuncNow p)" "LbrFunc s = Some (LbrFuncNow p)"
    "bNrmMin s = Some (bNrmMinNow p)" "Fin 0 \<le> eval2 (cFuncNow p) (Fin b) (Fin shk)"
    using O by simp_all
  assume "Fin b - eval1 (bNrmMinNow p) (Fin shk)
             \<le> last (bNrmNow_temp p (segment (map Fin (TranShkGrid p)) (Fin shk) - 1))
           \<and> Fin b - eval1 (bNrmMinNow p) (Fin shk)
             \<le> last (bNrmNow_temp p (segment (map Fin (TranShkGrid p)) (Fin shk)))"
  then show "Fin 0 \<le> eval2 (LbrFuncNow p) (Fin b) (Fin shk)"
    "eval2 (LbrFuncNow p) (Fin b) (Fin shk) \<le> Fin 1"
    using O by simp_all
next
  assume A: "updateSolutionTerminal tf gs cs ws ax rho = Inr s'
      \<and> pick tf gs = Inr g \<and> pick tf cs = Inr al \<and> pick tf ws = Inr w
      \<and> valid_terminal al w ax g \<and> g ! 0 \<le> shk' \<and> shk' \<le> last g \<and> 0 \<le> b'"
  then have s: "s' = solution_terminal_of rho al w ax g"
    by (intro terminal_solution [of tf gs cs ws ax rho s' g al w]) simp_all
  have V: "valid_terminal al w ax g" and shk: "g ! 0 \<le> shk'" "shk' \<le> last g" and b: "0 \<le> b'"
    using A by simp_all
  show "cFunc s' = Some (BilinearInterp (cNrmTerm al w ax g) (bNrmGrid_term ax) (map Fin g))"
    "LbrFunc s' = Some (BilinearInterp (LbrTerm al w ax g) (bNrmGrid_term ax) (map Fin g))"
    "bNrmMin s' = Some (ConstantFunction 0)"
    by (simp_all add: s terminal_fields)
  show "Fin 0 \<le> eval2 (BilinearInterp (cNrmTerm al w ax g) (bNrmGrid_term ax) (map Fin g))
                   (Fin b') (Fin shk')"
    by (rule terminal_consumption_nonneg [OF V b shk])
  assume "b' \<le> last ax"
  then show "Fin 0 \<le> eval2 (BilinearInterp (LbrTerm al w ax g) (bNrmGrid_term ax) (map Fin g))
                        (Fin b') (Fin shk')"
    "eval2 (BilinearInterp (LbrTerm al w ax g) (bNrmGrid_term ax) (map Fin g))
                        (Fin b') (Fin shk') \<le> Fin 1"
    using terminal_labor_range [OF V b _ shk] by simp_all
qed

theorem labor_and_consumption_bounds_witness:
  "valid_inputs example_args (\<lambda>b shk. 1 / b)
   \<and> eval1 (bNrmMinNow example_args) (Fin 9) = Fin (- 9)
   \<and> last (bNrmNow_temp example_args 0) = Fin 40
   \<and> last (bNrmNow_temp example_args 1) = Fin 45
   \<and> Fin 0 \<le> eval2 (cFuncNow example_args) (Fin (- 6)) (Fin 9)
   \<and> Fin 0 \<le> eval2 (LbrFuncNow example_args) (Fin (- 6)) (Fin 9)
   \<and> eval2 (LbrFuncNow example_args) (Fin (- 6)) (Fin 9) \<le> Fin 1
   \<and> valid_terminal 1 1 [1] [1, 2]
   \<and> Fin 0 \<le> eval2 (BilinearInterp (cNrmTerm 1 1 [1] [1, 2]) (bNrmGrid_term [1]) (map Fin [1, 2]))
                 (Fin (1/2)) (Fin (3/2))
   \<and> Fin 0 \<le> eval2 (BilinearInterp (LbrTerm 1 1 [1] [1, 2]) (bNrmGrid_term [1]) (map Fin [1, 2]))
                 (Fin (1/2)) (Fin (3/2))
   \<and> eval2 (BilinearInterp (LbrTerm 1 1 [1] [1, 2]) (bNrmGrid_term [1]) (map Fin [1, 2]))
                 (Fin (1/2)) (Fin (3/2)) \<le> Fin 1"
  using labor_and_consumption_bounds [of example_args "solution_now example_args"
      "\<lambda>b shk. 1 / b" 9 "- 6" True "[[1, 2]]" "[1]" "[1]" "[1]" 1
      "solution_terminal_of 1 1 1 [1] [1, 2]" "[1, 2]" 1 1 "3/2" "1/2"]
  by (simp add: ex_solve ex_valid_inputs ex_bmin9 ex_bNrmNow_temp minus_npf_def ex_terminal
      ex_valid_terminal)

text \<open>
  The marginal value function is not non-decreasing in balances: in the example it is 1 at
  balances \<open>-6\<close> and \<open>1/18\<close> at balances 36, at shock 9.
\<close>
theorem marginal_value_monotone_counterexample:
  "solveConsLaborIntMarg example_args = Inr (Some (solution_now example_args))
   \<and> valid_inputs example_args (\<lambda>b shk. 1 / b)
   \<and> vPfunc (solution_now example_args) = Some (vPfuncNow example_args)
   \<and> eval1 (bNrmMinNow example_args) (Fin 9) = Fin (- 9)
   \<and> eval2 (vPfuncNow example_args) (Fin (- 6)) (Fin 9) = Fin 1
   \<and> eval2 (vPfuncNow example_args) (Fin 36) (Fin 9) = Fin (1/18)
   \<and> \<not> eval2 (vPfuncNow example_args) (Fin (- 6)) (Fin 9)
         \<le> eval2 (vPfuncNow example_args) (Fin 36) (Fin 9)"
  by (simp add: ex_solve ex_valid_inputs solution_now_fields ex_bmin9 ex_vP_m6_9 ex_vP_36_9)

text \<open>
  C8, amended. For valid inputs on which the solver returns a solution, every shock
  within the shock grid and all balances \<open>b1 \<le> b2\<close> at or above the minimum balance of the
  shock: consumption at \<open>b1\<close> is at most consumption at \<open>b2\<close>, and the marginal value at
  \<open>b2\<close> is at most the marginal value at \<open>b1\<close> (it is non-increasing, and infinite where the
  pseudo-inverse is 0).
\<close>
theorem consumption_and_marginal_value_monotone:
  assumes S: "solveConsLaborIntMarg p = Inr (Some s)" and V: "valid_inputs p v"
    and lo: "TranShkGrid p ! 0 \<le> shk" and hi: "shk \<le> last (TranShkGrid p)"
    and b1: "eval1 (bNrmMinNow p) (Fin shk) \<le> Fin b1" and b: "b1 \<le> b2"
  shows "cFunc s = Some (cFuncNow p) \<and> vPfunc s = Some (vPfuncNow p)
    \<and> bNrmMin s = Some (bNrmMinNow p)
    \<and> eval2 (cFuncNow p) (Fin b1) (Fin shk) \<le> eval2 (cFuncNow p) (Fin b2) (Fin shk)
    \<and> eval2 (vPfuncNow p) (Fin b2) (Fin shk) \<le> eval2 (vPfuncNow p) (Fin b1) (Fin shk)"
proof -
  let ?es = "esR p v"
  have W: "well_posed p ?es" by (rule valid_inputs_well_posed [OF S V])
  have s: "s = solution_now p" by (rule solve_SomeD(1) [OF S])
  have m1: "bminR p shk \<le> b1" using b1 by (simp add: eval_bmin [OF W])
  then have m2: "bminR p shk \<le> b2" using b by simp
  have c: "surf p ?es (ccolR p ?es) b1 shk \<le> surf p ?es (ccolR p ?es) b2 shk"
    by (rule surf_mono [OF S W lo hi sorted_ccolR [OF S W] _ b]) simp_all
  have v: "surf p ?es (vcolR p ?es) b1 shk \<le> surf p ?es (vcolR p ?es) b2 shk"
    by (rule surf_mono [OF S W lo hi sorted_vcolR [OF S W] _ b]) simp_all
  have v0: "0 \<le> surf p ?es (vcolR p ?es) b1 shk"
    by (rule surf_lower [OF S W lo hi sorted_vcolR [OF S W] _ _ m1]) (simp_all add: vcolR_def)
  have "np_power (Fin (surf p ?es (vcolR p ?es) b2 shk)) (- CRRA p)
      \<le> np_power (Fin (surf p ?es (vcolR p ?es) b1 shk)) (- CRRA p)"
    by (rule np_power_antitone [OF wp_params(6) [OF S W] v0 v])
  then have "eval2 (vPfuncNow p) (Fin b2) (Fin shk) \<le> eval2 (vPfuncNow p) (Fin b1) (Fin shk)"
    unfolding vPfuncNow_def eval2.simps CRRAutilityP_def
      eval_vPnvrsFuncNow [OF S W m1] eval_vPnvrsFuncNow [OF S W m2] .
  moreover have "eval2 (cFuncNow p) (Fin b1) (Fin shk) \<le> eval2 (cFuncNow p) (Fin b2) (Fin shk)"
    unfolding eval_cFuncNow [OF S W m1] eval_cFuncNow [OF S W m2] using c by simp
  ultimately show ?thesis by (simp add: s solution_now_fields)
qed

theorem consumption_and_marginal_value_monotone_witness:
  "valid_inputs example_args (\<lambda>b shk. 1 / b)
   \<and> eval1 (bNrmMinNow example_args) (Fin 9) = Fin (- 9)
   \<and> eval2 (cFuncNow example_args) (Fin (- 6)) (Fin 9)
       \<le> eval2 (cFuncNow example_args) (Fin 36) (Fin 9)
   \<and> eval2 (vPfuncNow example_args) (Fin 36) (Fin 9) = Fin (1/18)
   \<and> eval2 (vPfuncNow example_args) (Fin (- 6)) (Fin 9) = Fin 1
   \<and> eval2 (vPfuncNow example_args) (Fin 36) (Fin 9)
       \<le> eval2 (vPfuncNow example_args) (Fin (- 6)) (Fin 9)"
  using consumption_and_marginal_value_monotone [OF ex_solve ex_valid_inputs, of 9 "- 6" 36]
  by (simp add: ex_bmin9 ex_vP_m6_9 ex_vP_36_9 ex_valid_inputs)

end
